theory Spec2Isabelle
  imports Complex_Main
begin

section \<open>Plain values\<close>

text \<open>
  The values the renderer produces and the merge engine combines. A number is one of the
  special values or a finite rational; the conversion of a string to a number is a
  builtin of the host language and stays a parameter of the renderer.

  An object is the list of its own enumerable properties, in property order, together
  with its prototype. \<open>JObjectPrototype\<close> is \<open>Object.prototype\<close>, and \<open>JObj props\<close> is
  an object whose prototype is \<open>Object.prototype\<close>, as an object literal makes it; only
  an assignment to \<open>__proto__\<close> gives an object another prototype. \<open>JFunction\<close> is one of
  the builtin methods that the prototype objects hold. The objects of the program have
  no two properties of the same name, and a prototype is null, \<open>Object.prototype\<close>, an
  object or an array.
\<close>

datatype jsnum = NaN | PosInfinity | NegInfinity | NegZero | Finite rat

datatype jsval =
    JNull
  | JUndefined
  | JBool bool
  | JNum jsnum
  | JStr string
  | JArr "jsval list"
  | JObject "(string \<times> jsval) list" jsval
  | JFunction
  | JObjectPrototype

abbreviation JObj :: "(string \<times> jsval) list \<Rightarrow> jsval" where
  "JObj props \<equiv> JObject props JObjectPrototype"

text \<open>
  What a \<open>throw\<close> carries: an \<open>OriginError\<close> (message and call stack), another
  \<open>Error\<close> (message), or a value that is not an \<open>Error\<close>.
\<close>

datatype thrown =
    OriginError string "string list"
  | Error string
  | NonError jsval

definition digit :: "nat \<Rightarrow> char" where
  "digit d = ''0123456789'' ! d"

fun showNat :: "nat \<Rightarrow> string" where
  "showNat n = (if n < 10 then [digit n] else showNat (n div 10) @ [digit (n mod 10)])"

declare showNat.simps [simp del]

text \<open>
  A property name is an array index when it is the decimal numeral, without a leading
  zero, of a number below \<open>2\<^sup>3\<^sup>2 - 1\<close>.
\<close>

definition is_digit :: "char \<Rightarrow> bool" where
  "is_digit c = (c \<in> set ''0123456789'')"

definition number_of :: "string \<Rightarrow> int" where
  "number_of k = foldl (\<lambda>n c. 10 * n + (of_char c - 48)) 0 k"

definition is_index :: "string \<Rightarrow> bool" where
  "is_index k =
     (k \<noteq> [] \<and> list_all is_digit k \<and> (hd k = CHR ''0'' \<longrightarrow> k = ''0'') \<and>
      length k \<le> 10 \<and> number_of k < 4294967295)"

text \<open>The own properties of an array or a string: its elements under their indices.\<close>

definition indexed :: "'a list \<Rightarrow> (string \<times> 'a) list" where
  "indexed xs = map (\<lambda>i. (showNat i, xs ! i)) [0..<length xs]"

text \<open>
  \<open>item && typeof item === 'object' && !Array.isArray(item)\<close>; the \<open>typeof\<close> of a
  function is \<open>'function'\<close>.
\<close>

fun isObject :: "jsval \<Rightarrow> bool" where
  "isObject (JObject props proto) = True"
| "isObject JObjectPrototype = True"
| "isObject v = False"

fun Array_isArray :: "jsval \<Rightarrow> bool" where
  "Array_isArray (JArr xs) = True"
| "Array_isArray v = False"

fun elements :: "jsval \<Rightarrow> jsval list" where
  "elements (JArr xs) = xs"
| "elements v = []"

text \<open>
  The own enumerable properties of an object, which \<open>Object.keys\<close> lists; the
  properties of \<open>Object.prototype\<close> are not enumerable.
\<close>

fun properties :: "jsval \<Rightarrow> (string \<times> jsval) list" where
  "properties (JObject props proto) = props"
| "properties v = []"

text \<open>
  \<open>{ ...v }\<close>: the own enumerable properties of \<open>v\<close>. An array and a string spread into
  their indexed elements; null, undefined, a number, a boolean, a builtin function and
  \<open>Object.prototype\<close> have none.
\<close>

fun spread :: "jsval \<Rightarrow> (string \<times> jsval) list" where
  "spread (JObject props proto) = props"
| "spread (JArr xs) = indexed xs"
| "spread (JStr s) = indexed (map (\<lambda>c. JStr [c]) s)"
| "spread v = []"

definition has_own :: "string \<Rightarrow> (string \<times> 'a) list \<Rightarrow> bool" where
  "has_own k props = (k \<in> set (map fst props))"

text \<open>
  Defining an own property. An existing property keeps its place and takes the new
  value. A new property whose name is an array index goes among the array indices, in
  ascending order, which come first; any other new property goes last.
\<close>

fun update_prop :: "(string \<times> 'a) list \<Rightarrow> string \<Rightarrow> 'a \<Rightarrow> (string \<times> 'a) list" where
  "update_prop [] k v = []"
| "update_prop ((k', v') # props) k v =
     (if k' = k then (k, v) # props else (k', v') # update_prop props k v)"

fun insert_index :: "(string \<times> 'a) list \<Rightarrow> string \<Rightarrow> 'a \<Rightarrow> (string \<times> 'a) list" where
  "insert_index [] k v = [(k, v)]"
| "insert_index ((k', v') # props) k v =
     (if is_index k' \<and> number_of k' < number_of k then (k', v') # insert_index props k v
      else (k, v) # (k', v') # props)"

definition set_prop :: "(string \<times> 'a) list \<Rightarrow> string \<Rightarrow> 'a \<Rightarrow> (string \<times> 'a) list" where
  "set_prop props k v =
     (if has_own k props then update_prop props k v
      else if is_index k then insert_index props k v
      else props @ [(k, v)])"

text \<open>
  The properties that every object inherits from \<open>Object.prototype\<close> and every array
  from \<open>Array.prototype\<close> (ECMAScript 2023). All are methods, except \<open>__proto__\<close>,
  which is an accessor: reading it yields the prototype of the object, assigning an
  object or null to it sets the prototype.
\<close>

definition Object_prototype_names :: "string list" where
  "Object_prototype_names =
     [''constructor'', ''__defineGetter__'', ''__defineSetter__'', ''hasOwnProperty'',
      ''__lookupGetter__'', ''__lookupSetter__'', ''isPrototypeOf'',
      ''propertyIsEnumerable'', ''toString'', ''valueOf'', ''toLocaleString'']"

definition Array_prototype_names :: "string list" where
  "Array_prototype_names =
     [''at'', ''concat'', ''constructor'', ''copyWithin'', ''entries'', ''every'', ''fill'',
      ''filter'', ''find'', ''findIndex'', ''findLast'', ''findLastIndex'', ''flat'',
      ''flatMap'', ''forEach'', ''includes'', ''indexOf'', ''join'', ''keys'',
      ''lastIndexOf'', ''map'', ''pop'', ''push'', ''reduce'', ''reduceRight'', ''reverse'',
      ''shift'', ''slice'', ''some'', ''sort'', ''splice'', ''toLocaleString'',
      ''toReversed'', ''toSorted'', ''toSpliced'', ''toString'', ''unshift'', ''values'',
      ''with'']"

datatype slot = Data jsval | Accessor

definition Object_prototype_slot :: "string \<Rightarrow> slot option" where
  "Object_prototype_slot k =
     (if k = ''__proto__'' then Some Accessor
      else if k \<in> set Object_prototype_names then Some (Data JFunction)
      else None)"

text \<open>
  The property \<open>k\<close> of a value, own or found along the prototype chain. An array has
  its elements and its \<open>length\<close> as own properties.
\<close>

fun lookup :: "jsval \<Rightarrow> string \<Rightarrow> slot option" where
  "lookup (JObject props proto) k =
     (case map_of props k of Some v \<Rightarrow> Some (Data v) | None \<Rightarrow> lookup proto k)"
| "lookup (JArr xs) k =
     (if is_index k \<and> nat (number_of k) < length xs then Some (Data (xs ! nat (number_of k)))
      else if k = ''length'' then Some (Data (JNum (Finite (of_nat (length xs)))))
      else if k \<in> set Array_prototype_names then Some (Data JFunction)
      else Object_prototype_slot k)"
| "lookup JObjectPrototype k = Object_prototype_slot k"
| "lookup v k = None"

text \<open>\<open>k in v\<close>\<close>

definition has_property :: "jsval \<Rightarrow> string \<Rightarrow> bool" where
  "has_property v k = (lookup v k \<noteq> None)"

text \<open>
  \<open>v[k]\<close> for an object-shaped \<open>v\<close>. The prototype of \<open>Object.prototype\<close> is null.
\<close>

fun prototype_of :: "jsval \<Rightarrow> jsval" where
  "prototype_of (JObject props proto) = proto"
| "prototype_of v = JNull"

definition get_prop :: "jsval \<Rightarrow> string \<Rightarrow> jsval" where
  "get_prop v k =
     (case lookup v k of
        None \<Rightarrow> JUndefined
      | Some (Data x) \<Rightarrow> x
      | Some Accessor \<Rightarrow> prototype_of v)"

text \<open>
  \<open>object[k] = v\<close>, the object afterwards. An own property takes the value. Otherwise,
  when the name leads to the accessor \<open>__proto__\<close>, its setter runs: an object or null
  becomes the prototype, any other value is ignored, and no property is added. In every
  other case the object gets a new own property; the inherited properties are writable.
\<close>

fun is_Object :: "jsval \<Rightarrow> bool" where
  "is_Object (JObject props proto) = True"
| "is_Object (JArr xs) = True"
| "is_Object JFunction = True"
| "is_Object JObjectPrototype = True"
| "is_Object v = False"

fun assign :: "jsval \<Rightarrow> string \<Rightarrow> jsval \<Rightarrow> jsval" where
  "assign (JObject props proto) k v =
     (if has_own k props then JObject (set_prop props k v) proto
      else if lookup proto k = Some Accessor then
        JObject props (if is_Object v \<or> v = JNull then v else proto)
      else JObject (set_prop props k v) proto)"
| "assign object k v = object"

section \<open>Deep merge\<close>

definition conflict_message :: "string \<Rightarrow> string" where
  "conflict_message key =
     ''The key \"'' @ key @
     ''\" cannot be merged as it isn't itself an object and already exists in the target object.''"

text \<open>
  \<open>deepMerge\<close> with the body of its \<open>Object.keys(source).forEach\<close> as \<open>forEach_key\<close>:
  \<open>target\<close>, the properties of \<open>source\<close> still to visit, each with its value
  \<open>source[key]\<close>, and \<open>output\<close> so far. A \<open>throw\<close> ends the loop with \<open>Inl\<close>.
\<close>

lemma size_properties:
  "size_list (size_prod (\<lambda>_. 0) size) (properties v) \<le> size v"
  by (cases v) simp_all

function deepMerge :: "jsval \<Rightarrow> jsval \<Rightarrow> thrown + jsval"
  and forEach_key :: "jsval \<Rightarrow> (string \<times> jsval) list \<Rightarrow> jsval \<Rightarrow> thrown + jsval"
where
  "deepMerge target source =
     (let output = JObj (spread target) in
      if isObject target \<and> isObject source then
        forEach_key target (properties source) output
      else Inr output)"
| "forEach_key target [] output = Inr output"
| "forEach_key target ((key, sv) # rest) output =
     (if isObject sv then
        (if \<not> has_property target key then forEach_key target rest (assign output key sv)
         else
           (case deepMerge (get_prop target key) sv of
              Inl e \<Rightarrow> Inl e
            | Inr merged \<Rightarrow> forEach_key target rest (assign output key merged)))
      else if Array_isArray sv then
        forEach_key target rest
          (assign output key
             (if Array_isArray (get_prop target key)
              then JArr (elements (get_prop target key) @ elements sv)
              else JArr (elements sv)))
      else if has_property output key then Inl (Error (conflict_message key))
      else forEach_key target rest (assign output key sv))"
  by pat_completeness auto

termination
proof (relation "measure (\<lambda>x. case x of
         Inl (t, s) \<Rightarrow> 2 * size s + 1
       | Inr (t, es, out) \<Rightarrow> 2 * size_list (size_prod (\<lambda>_. 0) size) es)", goal_cases)
  case (2 target source out)
  have "size_list (size_prod (\<lambda>_. 0) size) (properties source) \<le> size source"
    by (rule size_properties)
  then show ?case by simp
qed simp_all

declare deepMerge.simps [simp del]

text \<open>
  The result the specification words for a merge outside the structural case: the own
  keys of \<open>source\<close> layered over a shallow copy of \<open>target\<close>, \<open>{ ...target, ...source }\<close>.
\<close>

definition spread_overwrite :: "jsval \<Rightarrow> jsval \<Rightarrow> jsval" where
  "spread_overwrite target source =
     JObj (fold (\<lambda>(k, v) out. set_prop out k v) (spread source) (spread target))"

subsection \<open>Properties of the merge\<close>

lemma keys_update_prop: "map fst (update_prop props k v) = map fst props"
  by (induction props) auto

lemma map_of_update_prop:
  "map_of (update_prop props k v) x =
     (if x = k \<and> k \<in> set (map fst props) then Some v else map_of props x)"
  by (induction props) (force simp: image_iff)+

lemma set_keys_update_prop: "fst ` set (update_prop props k v) = fst ` set props"
  using keys_update_prop[of props k v] by (metis set_map)

lemma set_insert_index: "set (insert_index props k v) = insert (k, v) (set props)"
  by (induction props) (auto split: if_splits)

lemma map_of_insert_index:
  "k \<notin> set (map fst props) \<Longrightarrow>
   map_of (insert_index props k v) x = (if x = k then Some v else map_of props x)"
  by (induction props) auto

lemma set_keys_insert_index: "fst ` set (insert_index props k v) = insert k (fst ` set props)"
  by (simp add: set_insert_index)

lemma set_keys_set_prop: "set (map fst (set_prop props k v)) = insert k (set (map fst props))"
  by (simp add: set_prop_def has_own_def set_keys_update_prop set_keys_insert_index
        insert_absorb)

lemma keys_set_prop_own: "has_own k props \<Longrightarrow> map fst (set_prop props k v) = map fst props"
  by (simp add: set_prop_def keys_update_prop)

lemma set_prop_fresh:
  "\<not> has_own k props \<Longrightarrow> \<not> is_index k \<Longrightarrow> set_prop props k v = props @ [(k, v)]"
  by (simp add: set_prop_def)

lemma set_set_prop_fresh:
  "\<not> has_own k props \<Longrightarrow> set (set_prop props k v) = insert (k, v) (set props)"
  by (simp add: set_prop_def set_insert_index)

lemma map_of_append_fresh:
  "k \<notin> set (map fst props) \<Longrightarrow>
   map_of (props @ [(k, v)]) x = (if x = k then Some v else map_of props x)"
  by (induction props) auto

lemma map_of_set_prop: "map_of (set_prop props k v) = (map_of props)(k \<mapsto> v)"
proof (rule ext)
  fix x
  show "map_of (set_prop props k v) x = ((map_of props)(k \<mapsto> v)) x"
    by (simp add: set_prop_def has_own_def map_of_update_prop map_of_insert_index
          map_of_append_fresh del: map_of_append)
qed

lemma has_own_set_prop: "has_own k' (set_prop props k v) \<longleftrightarrow> k' = k \<or> has_own k' props"
  using set_keys_set_prop[of props k v] by (auto simp: has_own_def)

lemma accessor_iff: "lookup JObjectPrototype k = Some Accessor \<longleftrightarrow> k = ''__proto__''"
  by (simp add: Object_prototype_slot_def)

lemma assign_plain:
  "has_own k out \<or> k \<noteq> ''__proto__'' \<Longrightarrow> assign (JObj out) k v = JObj (set_prop out k v)"
  by (auto simp: Object_prototype_slot_def)

lemma assign_object:
  "\<exists>out' p'. assign (JObject out p) k v = JObject out' p' \<and>
     (\<forall>k'. has_own k' out \<longrightarrow> has_own k' out') \<and>
     (\<forall>k'. k' \<noteq> k \<longrightarrow> map_of out' k' = map_of out k') \<and>
     (has_own k out \<longrightarrow> map_of out' k = Some v)"
  by (auto simp: has_own_set_prop map_of_set_prop)

lemma lookup_own: "map_of props k = Some v \<Longrightarrow> lookup (JObject props proto) k = Some (Data v)"
  by simp

lemma has_property_own: "has_own k props \<Longrightarrow> has_property (JObject props proto) k"
proof -
  assume "has_own k props"
  then obtain v where "map_of props k = Some v"
    by (cases "map_of props k") (auto simp: has_own_def map_of_eq_None_iff)
  then show ?thesis by (simp add: has_property_def)
qed

lemma get_prop_own: "map_of props k = Some v \<Longrightarrow> get_prop (JObject props proto) k = v"
  by (simp add: get_prop_def)

lemma has_property_plain:
  "has_property (JObj out) k \<longleftrightarrow> has_own k out \<or> Object_prototype_slot k \<noteq> None"
proof (cases "map_of out k")
  case None
  then have "\<not> has_own k out" by (simp add: has_own_def map_of_eq_None_iff)
  with None show ?thesis by (simp add: has_property_def)
next
  case (Some v)
  then have "has_own k out" by (auto simp: has_own_def dest: map_of_SomeD intro: rev_image_eqI)
  with Some show ?thesis by (simp add: has_property_def)
qed

lemma not_in_empty_object:
  "\<not> has_property (JObj []) k \<Longrightarrow> k \<noteq> ''__proto__''"
  by (auto simp: has_property_def Object_prototype_slot_def)

declare assign.simps [simp del]

lemma forEach_key_step:
  assumes "forEach_key t ((key, sv) # rest) output = Inr r"
  obtains x where "forEach_key t rest (assign output key x) = Inr r"
  using assms by (auto split: if_splits sum.splits)

lemma forEach_key_preserves:
  "forEach_key t s (JObject out p) = Inr r \<Longrightarrow> k \<notin> set (map fst s) \<Longrightarrow>
   map_of (properties r) k = map_of out k"
proof (induction s arbitrary: out p)
  case Nil
  then show ?case by auto
next
  case (Cons a s)
  obtain key sv where a: "a = (key, sv)" by (cases a)
  from Cons.prems(1)[unfolded a] obtain x where
    rec: "forEach_key t s (assign (JObject out p) key x) = Inr r"
    by (rule forEach_key_step)
  from assign_object[of out p key x] obtain out' p' where
    as: "assign (JObject out p) key x = JObject out' p'" and
    other: "\<forall>k'. k' \<noteq> key \<longrightarrow> map_of out' k' = map_of out k'" by blast
  from Cons.prems(2) a have "k \<noteq> key" "k \<notin> set (map fst s)" by auto
  with Cons.IH[of out' p'] rec as other show ?case by simp
qed

lemma forEach_key_arrays:
  "forEach_key t s (JObject out p) = Inr r \<Longrightarrow> distinct (map fst s) \<Longrightarrow>
   (k, JArr b) \<in> set s \<Longrightarrow> get_prop t k = JArr a \<Longrightarrow> has_own k out \<Longrightarrow>
   map_of (properties r) k = Some (JArr (a @ b))"
proof (induction s arbitrary: out p)
  case Nil
  then show ?case by simp
next
  case (Cons e s)
  obtain key sv where e: "e = (key, sv)" by (cases e)
  from Cons.prems(2) e have d: "distinct (map fst s)" and nk: "key \<notin> set (map fst s)" by auto
  show ?case
  proof (cases "(k, JArr b) \<in> set s")
    case True
    from Cons.prems(1)[unfolded e] obtain x where
      rec: "forEach_key t s (assign (JObject out p) key x) = Inr r"
      by (rule forEach_key_step)
    from assign_object[of out p key x] obtain out' p' where
      as: "assign (JObject out p) key x = JObject out' p'" and
      keep: "\<forall>k'. has_own k' out \<longrightarrow> has_own k' out'" by blast
    from keep Cons.prems(5) have "has_own k out'" by simp
    from Cons.IH[OF rec[unfolded as] d True Cons.prems(4) this] show ?thesis .
  next
    case False
    with Cons.prems(3) e have eq: "key = k" "sv = JArr b" by auto
    from Cons.prems(1) e eq Cons.prems(4)
    have rec: "forEach_key t s (assign (JObject out p) k (JArr (a @ b))) = Inr r"
      by simp
    from assign_object[of out p k "JArr (a @ b)"] Cons.prems(5) obtain out' p' where
      as: "assign (JObject out p) k (JArr (a @ b)) = JObject out' p'" and
      val: "map_of out' k = Some (JArr (a @ b))" by blast
    from forEach_key_preserves[OF rec[unfolded as]] nk eq val show ?thesis by simp
  qed
qed

lemma deepMerge_forEach_key_errors:
  "deepMerge t0 s0 = Inl e \<Longrightarrow> \<exists>k. e = Error (conflict_message k)"
  "forEach_key t s out = Inl e \<Longrightarrow> \<exists>k. e = Error (conflict_message k)"
proof (induction t0 s0 and t s out rule: deepMerge_forEach_key.induct)
  case (1 target source)
  then show ?case
    by (auto simp: deepMerge.simps Let_def split: if_splits sum.splits)
next
  case (2 target out)
  then show ?case by simp
next
  case (3 target key sv rest out)
  then show ?case
    by (auto split: if_splits sum.splits)
qed

lemma forEach_key_conflict:
  "(k, v) \<in> set s \<Longrightarrow> \<not> isObject v \<Longrightarrow> \<not> Array_isArray v \<Longrightarrow> has_own k out \<Longrightarrow>
   \<exists>k'. forEach_key t s (JObject out p) = Inl (Error (conflict_message k'))"
proof (induction s arbitrary: out p)
  case Nil
  then show ?case by simp
next
  case (Cons e s)
  obtain key sv where e: "e = (key, sv)" by (cases e)
  show ?case
  proof (cases "forEach_key t (e # s) (JObject out p)")
    case (Inl err)
    with deepMerge_forEach_key_errors(2)[OF Inl] show ?thesis by auto
  next
    case (Inr r)
    from Inr[unfolded e] obtain x where
      rec: "forEach_key t s (assign (JObject out p) key x) = Inr r"
      by (rule forEach_key_step)
    from assign_object[of out p key x] obtain out' p' where
      as: "assign (JObject out p) key x = JObject out' p'" and
      keep: "\<forall>k'. has_own k' out \<longrightarrow> has_own k' out'" by blast
    from keep Cons.prems(4) have own: "has_own k out'" by simp
    have "(k, v) \<in> set s"
    proof (rule ccontr)
      assume "(k, v) \<notin> set s"
      with Cons.prems(1) e have "key = k" "sv = v" by auto
      with Inr e Cons.prems has_property_own[of k out p] show False by simp
    qed
    from Cons.IH[OF this Cons.prems(2,3) own, of p'] rec as show ?thesis by auto
  qed
qed

lemma forEach_key_union:
  "distinct (map fst s) \<Longrightarrow>
   \<forall>k\<in>set (map fst s). \<not> has_property t k \<and> \<not> has_property (JObj []) k \<and> \<not> has_own k out \<Longrightarrow>
   forEach_key t s (JObj out) = Inr (JObj (fold (\<lambda>(k, v) out. set_prop out k v) s out))"
proof (induction s arbitrary: out)
  case Nil
  then show ?case by simp
next
  case (Cons a s)
  obtain key sv where a: "a = (key, sv)" by (cases a)
  from Cons.prems a have nt: "\<not> has_property t key" and ne: "\<not> has_property (JObj []) key"
    and no: "\<not> has_own key out" and ns: "key \<notin> set (map fst s)"
    and d: "distinct (map fst s)" by auto
  have np: "\<not> has_property (JObj out) key" using no ne by (simp add: has_property_plain)
  have und: "get_prop t key = JUndefined"
    using nt by (simp add: has_property_def get_prop_def)
  have arr: "JArr (elements sv) = sv" if "Array_isArray sv" using that by (cases sv) auto
  have as: "assign (JObj out) key x = JObj (set_prop out key x)" for x
    using not_in_empty_object[OF ne] by (intro assign_plain) simp
  have rest: "\<forall>k\<in>set (map fst s). \<not> has_property t k \<and> \<not> has_property (JObj []) k \<and>
      \<not> has_own k (set_prop out key sv)"
  proof
    fix k assume k: "k \<in> set (map fst s)"
    from k ns have "k \<noteq> key" by auto
    moreover from Cons.prems(2) k have "\<not> has_property t k \<and> \<not> has_property (JObj []) k \<and>
      \<not> has_own k out" by auto
    ultimately show "\<not> has_property t k \<and> \<not> has_property (JObj []) k \<and>
      \<not> has_own k (set_prop out key sv)"
      by (simp add: has_own_set_prop)
  qed
  let ?r = "Inr (JObj (fold (\<lambda>(k, v) out. set_prop out k v) s (set_prop out key sv)))"
  have ih: "forEach_key t s (JObj (set_prop out key sv)) = ?r"
    using d rest by (rule Cons.IH)
  have step: "forEach_key t ((key, sv) # s) (JObj out) = forEach_key t s (JObj (set_prop out key sv))"
  proof (cases "isObject sv")
    case True
    with nt show ?thesis by (simp add: as)
  next
    case False
    show ?thesis
    proof (cases "Array_isArray sv")
      case True
      with False und arr show ?thesis by (simp add: as)
    next
      case na: False
      with False np show ?thesis by (simp add: as)
    qed
  qed
  show ?case unfolding a step ih by simp
qed

lemma fold_set_prop_entries:
  "distinct (map fst s) \<Longrightarrow> \<forall>k\<in>set (map fst s). \<not> has_own k out \<Longrightarrow>
   set (fold (\<lambda>(k, v) out. set_prop out k v) s out) = set out \<union> set s \<and>
   set (map fst (fold (\<lambda>(k, v) out. set_prop out k v) s out)) = set (map fst out) \<union> set (map fst s)"
proof (induction s arbitrary: out)
  case Nil
  then show ?case by simp
next
  case (Cons a s)
  obtain key sv where a: "a = (key, sv)" by (cases a)
  from Cons.prems a have no: "\<not> has_own key out" and ns: "key \<notin> set (map fst s)"
    and d: "distinct (map fst s)" by auto
  have fresh: "\<forall>k\<in>set (map fst s). \<not> has_own k (set_prop out key sv)"
    using Cons.prems a by (auto simp: has_own_set_prop)
  from Cons.IH[OF d fresh] set_set_prop_fresh[OF no, of sv] set_keys_set_prop[of out key sv]
  show ?case by (simp add: a) blast
qed

lemma fold_set_prop_append:
  "distinct (map fst s) \<Longrightarrow> \<forall>k\<in>set (map fst s). \<not> has_own k out \<and> \<not> is_index k \<Longrightarrow>
   fold (\<lambda>(k, v) out. set_prop out k v) s out = out @ s"
proof (induction s arbitrary: out)
  case Nil
  then show ?case by simp
next
  case (Cons a s)
  obtain key sv where a: "a = (key, sv)" by (cases a)
  from Cons.prems a have no: "\<not> has_own key out" and ni: "\<not> is_index key"
    and d: "distinct (map fst s)" by auto
  have fr: "set_prop out key sv = out @ [(key, sv)]" using no ni by (rule set_prop_fresh)
  have "fold (\<lambda>(k, v) out. set_prop out k v) s (out @ [(key, sv)]) = (out @ [(key, sv)]) @ s"
    using Cons.prems a d by (intro Cons.IH) (auto simp: has_own_def)
  with fr show ?case by (simp add: a)
qed

lemma forEach_key_keys:
  "forEach_key t s (JObj out) = Inr r \<Longrightarrow> distinct (map fst s) \<Longrightarrow>
   \<forall>k\<in>set (map fst s). has_own k out \<or> \<not> is_index k \<and> k \<noteq> ''__proto__'' \<Longrightarrow>
   \<exists>out'. r = JObj out' \<and>
     map fst out' = map fst out @ filter (\<lambda>k. \<not> has_own k out) (map fst s)"
proof (induction s arbitrary: out)
  case Nil
  then show ?case by auto
next
  case (Cons a s)
  obtain key sv where a: "a = (key, sv)" by (cases a)
  from Cons.prems(2) a have d: "distinct (map fst s)" and nk: "key \<notin> set (map fst s)" by auto
  from Cons.prems(3) a have key: "has_own key out \<or> \<not> is_index key \<and> key \<noteq> ''__proto__''"
    by simp
  from Cons.prems(1)[unfolded a] obtain x where
    rec0: "forEach_key t s (assign (JObj out) key x) = Inr r"
    by (rule forEach_key_step)
  have as: "assign (JObj out) key x = JObj (set_prop out key x)"
    using key by (intro assign_plain) auto
  from rec0 as have rec: "forEach_key t s (JObj (set_prop out key x)) = Inr r" by simp
  have rest: "\<forall>k\<in>set (map fst s). has_own k (set_prop out key x) \<or> \<not> is_index k \<and> k \<noteq> ''__proto__''"
    using Cons.prems(3) by (auto simp: has_own_set_prop)
  from Cons.IH[OF rec d rest] obtain out' where r: "r = JObj out'" and
    k: "map fst out' = map fst (set_prop out key x) @
          filter (\<lambda>k. \<not> has_own k (set_prop out key x)) (map fst s)" by blast
  have f: "filter (\<lambda>k. \<not> has_own k (set_prop out key x)) (map fst s)
      = filter (\<lambda>k. \<not> has_own k out) (map fst s)"
    using nk by (intro filter_cong) (auto simp: has_own_set_prop)
  show ?case
  proof (cases "has_own key out")
    case True
    with r k f show ?thesis by (simp add: a keys_set_prop_own)
  next
    case False
    with key have "set_prop out key x = out @ [(key, x)]" by (intro set_prop_fresh) auto
    with False r k f show ?thesis by (simp add: a)
  qed
qed

lemma forEach_key_object:
  "forEach_key t s (JObject out p) = Inr r \<Longrightarrow> \<exists>out' p'. r = JObject out' p'"
proof (induction s arbitrary: out p)
  case Nil
  then show ?case by auto
next
  case (Cons a s)
  obtain key sv where a: "a = (key, sv)" by (cases a)
  from Cons.prems(1)[unfolded a] obtain x where
    rec: "forEach_key t s (assign (JObject out p) key x) = Inr r"
    by (rule forEach_key_step)
  from assign_object[of out p key x] obtain out' p' where
    as: "assign (JObject out p) key x = JObject out' p'" by blast
  from Cons.IH[OF rec[unfolded as]] show ?case .
qed

lemma deepMerge_objects_loop:
  "deepMerge (JObject target tp) (JObject source sp) = forEach_key (JObject target tp) source (JObj target)"
  by (simp add: deepMerge.simps)

text \<open>
  C2, evaluated on the code. For object-shaped \<open>target\<close> and \<open>source\<close>: when no key
  of \<open>source\<close> is a property of \<open>target\<close> or of an empty object, \<open>deepMerge\<close> yields the
  union of the entries, and if none of the keys is an array index the result is the
  entries of \<open>target\<close> followed by those of \<open>source\<close>; where a key holds arrays in both,
  a result holds their concatenation, the elements of \<open>target\<close> first; a key that holds
  a scalar in \<open>source\<close> and exists in \<open>target\<close> makes the merge throw the conflict error;
  and the keys of a result are the keys of \<open>target\<close> in their order, then the keys new
  in \<open>source\<close> in the order of \<open>source\<close>, when no new key is an array index or
  \<open>__proto__\<close>.

  The tests \<open>key in target\<close> and \<open>key in output\<close> also hold for the names that every
  object inherits. So \<open>deepMerge({}, {toString: 'x'})\<close> throws the conflict error for a
  key that neither object has, and \<open>deepMerge({}, {constructor: {a: 1}})\<close> merges
  \<open>{a: 1}\<close> into the inherited method and yields \<open>{constructor: {}}\<close>. A new key
  that is an array index goes before the other keys: \<open>deepMerge({b: 1}, {1: 2})\<close> has
  the keys \<open>1, b\<close>.
\<close>
theorem deepMerge_objects:
  assumes "distinct (map fst source)"
  shows
    "((\<forall>k\<in>set (map fst source).
         \<not> has_property (JObject target tp) k \<and> \<not> has_property (JObj []) k) \<longrightarrow>
        (\<exists>r. deepMerge (JObject target tp) (JObject source sp) = Inr (JObj r) \<and>
             set r = set target \<union> set source)) \<and>
     ((\<forall>k\<in>set (map fst source).
         \<not> has_property (JObject target tp) k \<and> \<not> has_property (JObj []) k \<and> \<not> is_index k) \<longrightarrow>
        deepMerge (JObject target tp) (JObject source sp) = Inr (JObj (target @ source))) \<and>
     (\<forall>k a b r. map_of target k = Some (JArr a) \<and> map_of source k = Some (JArr b) \<and>
        deepMerge (JObject target tp) (JObject source sp) = Inr r \<longrightarrow>
        get_prop r k = JArr (a @ b)) \<and>
     (\<forall>k v. map_of source k = Some v \<and> \<not> isObject v \<and> \<not> Array_isArray v \<and>
        has_own k target \<longrightarrow>
        (\<exists>k'. deepMerge (JObject target tp) (JObject source sp)
                = Inl (Error (conflict_message k')))) \<and>
     (\<forall>r. deepMerge (JObject target tp) (JObject source sp) = Inr r \<and>
        (\<forall>k\<in>set (map fst source). has_own k target \<or> \<not> is_index k \<and> k \<noteq> ''__proto__'') \<longrightarrow>
        map fst (properties r) =
          map fst target @ filter (\<lambda>k. \<not> has_own k target) (map fst source)) \<and>
     deepMerge (JObj []) (JObj [(''toString'', JStr ''x'')])
       = Inl (Error (conflict_message ''toString'')) \<and>
     deepMerge (JObj []) (JObj [(''constructor'', JObj [(''a'', JNum (Finite 1))])])
       = Inr (JObj [(''constructor'', JObj [])]) \<and>
     deepMerge (JObj [(''b'', JNum (Finite 1))]) (JObj [(''1'', JNum (Finite 2))])
       = Inr (JObj [(''1'', JNum (Finite 2)), (''b'', JNum (Finite 1))])"
proof (intro conjI allI impI)
  let ?t = "JObject target tp"
  assume h: "\<forall>k\<in>set (map fst source). \<not> has_property ?t k \<and> \<not> has_property (JObj []) k"
  have own: "\<forall>k\<in>set (map fst source). \<not> has_own k target"
    using h has_property_own[of _ target tp] by blast
  with h have "\<forall>k\<in>set (map fst source).
      \<not> has_property ?t k \<and> \<not> has_property (JObj []) k \<and> \<not> has_own k target" by blast
  with assms have "forEach_key ?t source (JObj target)
      = Inr (JObj (fold (\<lambda>(k, v) out. set_prop out k v) source target))"
    by (rule forEach_key_union)
  moreover have "set (fold (\<lambda>(k, v) out. set_prop out k v) source target) = set target \<union> set source"
    using fold_set_prop_entries[OF assms own] by blast
  ultimately show "\<exists>r. deepMerge ?t (JObject source sp) = Inr (JObj r) \<and>
      set r = set target \<union> set source"
    by (simp add: deepMerge_objects_loop)
next
  let ?t = "JObject target tp"
  assume h: "\<forall>k\<in>set (map fst source).
      \<not> has_property ?t k \<and> \<not> has_property (JObj []) k \<and> \<not> is_index k"
  have own: "\<forall>k\<in>set (map fst source). \<not> has_own k target \<and> \<not> is_index k"
    using h has_property_own[of _ target tp] by blast
  with h have "\<forall>k\<in>set (map fst source).
      \<not> has_property ?t k \<and> \<not> has_property (JObj []) k \<and> \<not> has_own k target" by blast
  with assms have "forEach_key ?t source (JObj target)
      = Inr (JObj (fold (\<lambda>(k, v) out. set_prop out k v) source target))"
    by (rule forEach_key_union)
  moreover have "fold (\<lambda>(k, v) out. set_prop out k v) source target = target @ source"
    using assms own by (rule fold_set_prop_append)
  ultimately show "deepMerge ?t (JObject source sp) = Inr (JObj (target @ source))"
    by (simp add: deepMerge_objects_loop)
next
  fix k a b r
  let ?t = "JObject target tp"
  assume h: "map_of target k = Some (JArr a) \<and> map_of source k = Some (JArr b) \<and>
    deepMerge ?t (JObject source sp) = Inr r"
  then have loop: "forEach_key ?t source (JObj target) = Inr r"
    by (simp add: deepMerge_objects_loop)
  from h have mem: "(k, JArr b) \<in> set source" by (auto dest: map_of_SomeD)
  from h have g: "get_prop ?t k = JArr a" by (simp add: get_prop_own)
  from h have own: "has_own k target"
    by (auto simp: has_own_def dest: map_of_SomeD intro: rev_image_eqI)
  from forEach_key_arrays[OF loop assms mem g own]
  have v: "map_of (properties r) k = Some (JArr (a @ b))" .
  from forEach_key_object[OF loop] obtain out' p' where "r = JObject out' p'" by blast
  with v show "get_prop r k = JArr (a @ b)" by (simp add: get_prop_own)
next
  fix k v
  let ?t = "JObject target tp"
  assume h: "map_of source k = Some v \<and> \<not> isObject v \<and> \<not> Array_isArray v \<and> has_own k target"
  then have "(k, v) \<in> set source" by (auto dest: map_of_SomeD)
  from forEach_key_conflict[OF this, of target ?t JObjectPrototype] h
  obtain k' where "forEach_key ?t source (JObj target) = Inl (Error (conflict_message k'))"
    by auto
  then show "\<exists>k'. deepMerge ?t (JObject source sp) = Inl (Error (conflict_message k'))"
    by (auto simp: deepMerge_objects_loop)
next
  fix r
  let ?t = "JObject target tp"
  assume h: "deepMerge ?t (JObject source sp) = Inr r \<and>
    (\<forall>k\<in>set (map fst source). has_own k target \<or> \<not> is_index k \<and> k \<noteq> ''__proto__'')"
  then have loop: "forEach_key ?t source (JObj target) = Inr r"
    by (simp add: deepMerge_objects_loop)
  from h have keys: "\<forall>k\<in>set (map fst source). has_own k target \<or> \<not> is_index k \<and> k \<noteq> ''__proto__''"
    by blast
  from forEach_key_keys[OF loop assms keys]
  show "map fst (properties r) =
          map fst target @ filter (\<lambda>k. \<not> has_own k target) (map fst source)"
    by auto
next
  show "deepMerge (JObj []) (JObj [(''toString'', JStr ''x'')])
       = Inl (Error (conflict_message ''toString''))" by code_simp
next
  show "deepMerge (JObj []) (JObj [(''constructor'', JObj [(''a'', JNum (Finite 1))])])
       = Inr (JObj [(''constructor'', JObj [])])" by code_simp
next
  show "deepMerge (JObj [(''b'', JNum (Finite 1))]) (JObj [(''1'', JNum (Finite 2))])
       = Inr (JObj [(''1'', JNum (Finite 2)), (''b'', JNum (Finite 1))])" by code_simp
qed

theorem deepMerge_objects_witness:
  "deepMerge (JObj [(''a'', JArr [JNum (Finite 1)]), (''b'', JStr ''x'')])
       (JObj [(''c'', JNull), (''d'', JObj [])])
     = Inr (JObj [(''a'', JArr [JNum (Finite 1)]), (''b'', JStr ''x''), (''c'', JNull),
                  (''d'', JObj [])]) \<and>
   deepMerge (JObj [(''a'', JArr [JNum (Finite 1)]), (''b'', JStr ''x'')])
       (JObj [(''c'', JNull), (''a'', JArr [JNum (Finite 2)])])
     = Inr (JObj [(''a'', JArr [JNum (Finite 1), JNum (Finite 2)]), (''b'', JStr ''x''),
                  (''c'', JNull)]) \<and>
   get_prop (JObj [(''a'', JArr [JNum (Finite 1), JNum (Finite 2)]), (''b'', JStr ''x''),
             (''c'', JNull)]) ''a'' = JArr ([JNum (Finite 1)] @ [JNum (Finite 2)]) \<and>
   map fst [(''a'', JArr [JNum (Finite 1), JNum (Finite 2)]), (''b'', JStr ''x''),
            (''c'', JNull)] = [''a'', ''b''] @ [''c''] \<and>
   (\<exists>k'. deepMerge (JObj [(''a'', JArr [JNum (Finite 1)]), (''b'', JStr ''x'')])
       (JObj [(''b'', JBool True)]) = Inl (Error (conflict_message k'))) \<and>
   (\<exists>r. deepMerge (JObj [(''a'', JArr [JNum (Finite 1)]), (''b'', JStr ''x'')])
       (JObj [(''7'', JNull), (''c'', JNull)]) = Inr (JObj r) \<and>
      set r = set [(''a'', JArr [JNum (Finite 1)]), (''b'', JStr ''x'')] \<union>
              set [(''7'', JNull), (''c'', JNull)])"
proof -
  let ?t = "[(''a'', JArr [JNum (Finite 1)]), (''b'', JStr ''x'')]"
  let ?s1 = "[(''c'', JNull), (''d'', JObj [])]"
  let ?s2 = "[(''c'', JNull), (''a'', JArr [JNum (Finite 2)])]"
  let ?s3 = "[(''b'', JBool True)]"
  let ?s4 = "[(''7'', JNull), (''c'', JNull)]"
  let ?r2 = "JObj [(''a'', JArr [JNum (Finite 1), JNum (Finite 2)]), (''b'', JStr ''x''),
                  (''c'', JNull)]"
  have d1: "distinct (map fst ?s1)" and d2: "distinct (map fst ?s2)"
    and d3: "distinct (map fst ?s3)" and d4: "distinct (map fst ?s4)" by simp_all
  have h1: "\<forall>k\<in>set (map fst ?s1).
      \<not> has_property (JObj ?t) k \<and> \<not> has_property (JObj []) k \<and> \<not> is_index k" by code_simp
  have h2: "\<forall>k\<in>set (map fst ?s2). has_own k ?t \<or> \<not> is_index k \<and> k \<noteq> ''__proto__''"
    by code_simp
  have h4: "\<forall>k\<in>set (map fst ?s4).
      \<not> has_property (JObj ?t) k \<and> \<not> has_property (JObj []) k" by code_simp
  have own: "has_own ''b'' ?t" by code_simp
  have e2: "deepMerge (JObj ?t) (JObj ?s2) = Inr ?r2" by code_simp
  have p1: "deepMerge (JObj ?t) (JObj ?s1) = Inr (JObj (?t @ ?s1))"
    using deepMerge_objects[OF d1, of ?t JObjectPrototype JObjectPrototype] h1 by blast
  have p2: "get_prop ?r2 ''a'' = JArr ([JNum (Finite 1)] @ [JNum (Finite 2)])"
    using deepMerge_objects[OF d2, of ?t JObjectPrototype JObjectPrototype] e2 by simp
  have p4: "map fst (properties ?r2) = map fst ?t @ filter (\<lambda>k. \<not> has_own k ?t) (map fst ?s2)"
    using deepMerge_objects[OF d2, of ?t JObjectPrototype JObjectPrototype] e2 h2 by blast
  have p3: "\<exists>k'. deepMerge (JObj ?t) (JObj ?s3) = Inl (Error (conflict_message k'))"
    using deepMerge_objects[OF d3, of ?t JObjectPrototype JObjectPrototype] own by simp
  have p5: "\<exists>r. deepMerge (JObj ?t) (JObj ?s4) = Inr (JObj r) \<and> set r = set ?t \<union> set ?s4"
    using deepMerge_objects[OF d4, of ?t JObjectPrototype JObjectPrototype] h4 by blast
  have f: "filter (\<lambda>k. \<not> has_own k ?t) (map fst ?s2) = [''c'']" by code_simp
  from p4 f have p4': "map fst [(''a'', JArr [JNum (Finite 1), JNum (Finite 2)]), (''b'', JStr ''x''),
            (''c'', JNull)] = [''a'', ''b''] @ [''c'']" by simp
  from p1 e2 p2 p4' p3 p5 show ?thesis by simp
qed

text \<open>
  C6, as the code has it: when \<open>target\<close> and \<open>source\<close> are not both object-shaped, the
  result is the shallow copy \<open>{ ...target }\<close> alone; no key of \<open>source\<close> is layered over it.
\<close>
theorem deepMerge_not_both_objects:
  "\<not> (isObject target \<and> isObject source) \<Longrightarrow>
   deepMerge target source = Inr (JObj (spread target))"
  by (auto simp: deepMerge.simps Let_def)

theorem deepMerge_not_both_objects_witness:
  "\<not> (isObject JNull \<and> isObject (JObj [(''b'', JNum (Finite 1))])) \<and>
   deepMerge JNull (JObj [(''b'', JNum (Finite 1))]) = Inr (JObj []) \<and>
   \<not> (isObject (JObj [(''a'', JNum (Finite 1))]) \<and> isObject (JStr ''hi'')) \<and>
   deepMerge (JObj [(''a'', JNum (Finite 1))]) (JStr ''hi'') = Inr (JObj [(''a'', JNum (Finite 1))])"
  using deepMerge_not_both_objects [of JNull "JObj [(''b'', JNum (Finite 1))]"]
    deepMerge_not_both_objects [of "JObj [(''a'', JNum (Finite 1))]" "JStr ''hi''"]
  by simp

theorem deepMerge_spread_overwrite_counterexample:
  "\<not> (isObject JNull \<and> isObject (JObj [(''b'', JNum (Finite 1))])) \<and>
   deepMerge JNull (JObj [(''b'', JNum (Finite 1))]) = Inr (JObj []) \<and>
   spread_overwrite JNull (JObj [(''b'', JNum (Finite 1))]) = JObj [(''b'', JNum (Finite 1))] \<and>
   deepMerge JNull (JObj [(''b'', JNum (Finite 1))])
     \<noteq> Inr (spread_overwrite JNull (JObj [(''b'', JNum (Finite 1))]))"
  by code_simp

section \<open>Dependency declarations and their order\<close>

text \<open>
  What \<open>depends\<close> and \<open>unravelOrderOfDependencies\<close> work on: a raw node, or a
  \<open>DependantNodeTree\<close> with its \<open>deps\<close> and its \<open>node\<close>. The program compares nodes and
  wrappers by identity (\<open>===\<close>, \<open>Set.has\<close>). A raw node is therefore given by its
  identity \<open>'a\<close>, and a wrapper carries the reference of its object: \<open>new\<close> yields
  a fresh one, passed to \<open>depends\<close> as its first argument. Two values are the same
  object exactly when they are equal. Wrappers are built from existing values and not
  changed afterwards, so they are finite trees.
\<close>

datatype 'a decl =
    VNode 'a
  | DependantNodeTree nat "'a decl list" "'a decl"

fun instanceof_DependantNodeTree :: "'a decl \<Rightarrow> bool" where
  "instanceof_DependantNodeTree (DependantNodeTree r deps node) = True"
| "instanceof_DependantNodeTree (VNode x) = False"

text \<open>
  \<open>getVNode\<close> is a method of the wrapper; the second equation only makes it total.
  \<open>underlying\<close> is the expression
  \<open>node instanceof DependantNodeTree ? node.getVNode() : node\<close>.
\<close>

fun getVNode :: "'a decl \<Rightarrow> 'a decl" where
  "getVNode (DependantNodeTree r deps node) =
     (if instanceof_DependantNodeTree node then getVNode node else node)"
| "getVNode (VNode x) = VNode x"

definition underlying :: "'a decl \<Rightarrow> 'a decl" where
  "underlying node = (if instanceof_DependantNodeTree node then getVNode node else node)"

text \<open>The \<open>for\<close> loop of \<open>depends\<close>: the first dependency that fails the check throws.\<close>

fun circular_check :: "'a decl list \<Rightarrow> 'a decl \<Rightarrow> thrown option" where
  "circular_check [] node = None"
| "circular_check (dep # deps) node =
     (if instanceof_DependantNodeTree dep \<and> getVNode dep = underlying node
      then Some (Error ''Circular dependency detected'')
      else circular_check deps node)"

definition depends :: "nat \<Rightarrow> 'a decl list \<Rightarrow> 'a decl \<Rightarrow> thrown + 'a decl" where
  "depends r deps node =
     (case circular_check deps node of
        Some e \<Rightarrow> Inl e
      | None \<Rightarrow> Inr (DependantNodeTree r deps node))"

text \<open>
  The inner function \<open>dfs\<close> with the two variables it closes over, \<open>visited\<close> and
  \<open>order\<close>, as state.
\<close>

fun dfs :: "'a decl \<Rightarrow> 'a decl set \<times> 'a decl list \<Rightarrow> 'a decl set \<times> 'a decl list" where
  "dfs node (visited, order) =
     (if node \<in> visited then (visited, order)
      else
        (case node of
           DependantNodeTree r deps n \<Rightarrow> dfs n (fold dfs deps (insert node visited, order))
         | VNode x \<Rightarrow>
             (if node \<notin> visited then (insert node visited, order @ [node])
              else (visited, order))))"

definition unravelOrderOfDependencies :: "'a decl list \<Rightarrow> 'a decl list" where
  "unravelOrderOfDependencies trees = snd (fold dfs trees ({}, []))"

declare dfs.simps [simp del]

subsection \<open>The order of the output\<close>

text \<open>
  \<open>reach\<close> lists the raw nodes of a declaration in the order of the traversal: those
  of its dependencies, then its own. \<open>append_new\<close> appends the elements of a list that
  are not there yet, one by one. \<open>indexOf\<close> is \<open>Array.prototype.indexOf\<close>, and \<open>a\<close>
  precedes \<open>b\<close> in a list when \<open>a\<close> occurs in it and \<open>b\<close> first occurs later.
\<close>

fun reach :: "'a decl \<Rightarrow> 'a decl list" where
  "reach (VNode x) = [VNode x]"
| "reach (DependantNodeTree r deps n) = concat (map reach deps) @ reach n"

fun append_new :: "'a list \<Rightarrow> 'a list \<Rightarrow> 'a list" where
  "append_new acc [] = acc"
| "append_new acc (x # xs) = append_new (if x \<in> set acc then acc else acc @ [x]) xs"

fun indexOf :: "'a list \<Rightarrow> 'a \<Rightarrow> int" where
  "indexOf [] x = - 1"
| "indexOf (y # ys) x =
     (if y = x then 0 else (let i = indexOf ys x in if i < 0 then - 1 else i + 1))"

definition precedes :: "'a \<Rightarrow> 'a \<Rightarrow> 'a list \<Rightarrow> bool" where
  "precedes a b xs = (0 \<le> indexOf xs a \<and> indexOf xs a < indexOf xs b)"

lemma set_append_new: "set (append_new acc xs) = set acc \<union> set xs"
  by (induction xs arbitrary: acc) auto

lemma append_new_append: "append_new acc (xs @ ys) = append_new (append_new acc xs) ys"
  by (induction xs arbitrary: acc) auto

lemma append_new_subset: "set xs \<subseteq> set acc \<Longrightarrow> append_new acc xs = acc"
  by (induction xs arbitrary: acc) auto

lemma append_new_extends: "\<exists>zs. append_new acc xs = acc @ zs"
proof (induction xs arbitrary: acc)
  case Nil
  then show ?case by simp
next
  case (Cons x xs)
  from Cons.IH[of "if x \<in> set acc then acc else acc @ [x]"] show ?case
    by (auto split: if_splits)
qed

lemma distinct_append_new: "distinct acc \<Longrightarrow> distinct (append_new acc xs)"
  by (induction xs arbitrary: acc) auto

lemma indexOf_absent: "x \<notin> set xs \<Longrightarrow> indexOf xs x = - 1"
  by (induction xs) (auto simp: Let_def)

lemma indexOf_present: "x \<in> set xs \<Longrightarrow> 0 \<le> indexOf xs x \<and> indexOf xs x < int (length xs)"
  by (induction xs) (auto simp: Let_def)

lemma indexOf_append_left: "x \<in> set xs \<Longrightarrow> indexOf (xs @ ys) x = indexOf xs x"
  by (induction xs) (auto simp: Let_def)

lemma indexOf_append_right:
  "x \<notin> set xs \<Longrightarrow> x \<in> set ys \<Longrightarrow> indexOf (xs @ ys) x = int (length xs) + indexOf ys x"
proof (induction xs)
  case Nil
  then show ?case by simp
next
  case (Cons a xs)
  then have "0 \<le> indexOf ys x" using indexOf_present by fastforce
  with Cons show ?case by (auto simp: Let_def)
qed

lemma precedes_append:
  assumes "a \<in> set acc" "b \<notin> set acc" "b \<in> set zs"
  shows "precedes a b (acc @ zs)"
proof -
  have "indexOf (acc @ zs) a = indexOf acc a" using assms(1) by (rule indexOf_append_left)
  moreover have "indexOf (acc @ zs) b = int (length acc) + indexOf zs b"
    using assms(2,3) by (rule indexOf_append_right)
  moreover have "0 \<le> indexOf acc a \<and> indexOf acc a < int (length acc)"
    using assms(1) by (rule indexOf_present)
  moreover have "0 \<le> indexOf zs b" using assms(3) indexOf_present by fastforce
  ultimately show ?thesis by (simp add: precedes_def)
qed

lemma precedes_append_new:
  assumes "a \<noteq> b" "b \<notin> set us" "b \<in> set vs"
  shows "precedes a b (append_new [] (us @ a # vs))"
proof -
  let ?acc = "append_new [] (us @ [a])"
  have split: "append_new [] (us @ a # vs) = append_new ?acc vs"
    using append_new_append[of "[]" "us @ [a]" vs] by simp
  obtain zs where zs: "append_new ?acc vs = ?acc @ zs"
    using append_new_extends by blast
  have sa: "set ?acc = set us \<union> {a}" by (simp add: set_append_new)
  have "set (?acc @ zs) = set ?acc \<union> set vs"
    using set_append_new[of ?acc vs] zs by simp
  with assms sa have "b \<in> set zs" by auto
  moreover have "a \<in> set ?acc" "b \<notin> set ?acc" using sa assms by auto
  ultimately have "precedes a b (?acc @ zs)" by (intro precedes_append)
  with split zs show ?thesis by simp
qed

text \<open>
  The invariant of the traversal. A visited wrapper is either finished, and then all
  its nodes are in \<open>order\<close>, or it is one of the wrappers being traversed, and these
  are larger than the declaration visited now. \<open>visits\<close> says what visiting a list of
  declarations does to the state.
\<close>

definition pending :: "nat \<Rightarrow> 'a decl set \<Rightarrow> 'a decl list \<Rightarrow> bool" where
  "pending k vis ord =
     (set ord \<subseteq> vis \<and> (\<forall>t\<in>vis. set (reach t) \<subseteq> set ord \<or> k < size t))"

definition visits :: "'a decl list \<Rightarrow> 'a decl set \<Rightarrow> 'a decl list \<Rightarrow> bool" where
  "visits ds vis ord =
     (\<exists>vis'. fold dfs ds (vis, ord) = (vis', append_new ord (concat (map reach ds))) \<and>
        vis \<subseteq> vis' \<and> set (append_new ord (concat (map reach ds))) \<subseteq> vis' \<and>
        (\<forall>t\<in>vis'. t \<in> vis \<or> set (reach t) \<subseteq> set (append_new ord (concat (map reach ds)))))"

lemma pending_mono: "pending k vis ord \<Longrightarrow> k' \<le> k \<Longrightarrow> pending k' vis ord"
  by (fastforce simp: pending_def)

lemma visits_fold:
  assumes step: "\<And>d vis ord. d \<in> set ds \<Longrightarrow> pending (size d) vis ord \<Longrightarrow> visits [d] vis ord"
    and bound: "\<And>d. d \<in> set ds \<Longrightarrow> size d \<le> k"
    and pend: "pending k vis ord"
  shows "visits ds vis ord"
  using assms
proof (induction ds arbitrary: vis ord)
  case Nil
  then show ?case by (simp add: visits_def pending_def)
next
  case (Cons d ds)
  have "pending (size d) vis ord"
    using Cons.prems(2,3) by (auto intro: pending_mono)
  then have "visits [d] vis ord" using Cons.prems(1) by simp
  then obtain vis1 where
    d1: "dfs d (vis, ord) = (vis1, append_new ord (reach d))" and
    sub1: "vis \<subseteq> vis1" and in1: "set (append_new ord (reach d)) \<subseteq> vis1" and
    new1: "\<forall>t\<in>vis1. t \<in> vis \<or> set (reach t) \<subseteq> set (append_new ord (reach d))"
    by (auto simp: visits_def)
  let ?ord1 = "append_new ord (reach d)"
  have grow: "set ord \<subseteq> set ?ord1" by (simp add: set_append_new)
  have p1: "pending k vis1 ?ord1"
    unfolding pending_def
  proof (intro conjI ballI)
    show "set ?ord1 \<subseteq> vis1" by (rule in1)
  next
    fix t assume "t \<in> vis1"
    with new1 have "t \<in> vis \<or> set (reach t) \<subseteq> set ?ord1" by blast
    then show "set (reach t) \<subseteq> set ?ord1 \<or> k < size t"
      using Cons.prems(3) grow by (auto simp: pending_def)
  qed
  have "visits ds vis1 ?ord1"
    using Cons.prems(1,2) p1 by (intro Cons.IH) auto
  then obtain vis2 where
    d2: "fold dfs ds (vis1, ?ord1) = (vis2, append_new ?ord1 (concat (map reach ds)))" and
    sub2: "vis1 \<subseteq> vis2" and in2: "set (append_new ?ord1 (concat (map reach ds))) \<subseteq> vis2" and
    new2: "\<forall>t\<in>vis2. t \<in> vis1 \<or> set (reach t) \<subseteq> set (append_new ?ord1 (concat (map reach ds)))"
    by (auto simp: visits_def)
  let ?ord2 = "append_new ?ord1 (concat (map reach ds))"
  have eq: "append_new ord (concat (map reach (d # ds))) = ?ord2"
    by (simp add: append_new_append)
  have grow2: "set ?ord1 \<subseteq> set ?ord2" by (simp add: set_append_new)
  show ?case
    unfolding visits_def eq
  proof (intro exI[of _ vis2] conjI ballI)
    show "fold dfs (d # ds) (vis, ord) = (vis2, ?ord2)" using d1 d2 by simp
    show "vis \<subseteq> vis2" using sub1 sub2 by blast
    show "set ?ord2 \<subseteq> vis2" by (rule in2)
  next
    fix t assume "t \<in> vis2"
    with new2 have "t \<in> vis1 \<or> set (reach t) \<subseteq> set ?ord2" by blast
    then show "t \<in> vis \<or> set (reach t) \<subseteq> set ?ord2"
      using new1 grow2 by blast
  qed
qed

lemma size_member: "d \<in> set ds \<Longrightarrow> size d \<le> size_list size ds"
  by (induction ds) auto

lemma visits_dfs: "pending (size node) vis ord \<Longrightarrow> visits [node] vis ord"
proof (induction node arbitrary: vis ord)
  case (VNode x)
  show ?case
  proof (cases "VNode x \<in> vis")
    case True
    with VNode have "VNode x \<in> set ord" by (auto simp: pending_def)
    with True VNode show ?thesis by (auto simp: visits_def dfs.simps pending_def)
  next
    case False
    with VNode have "VNode x \<notin> set ord" by (auto simp: pending_def)
    with False VNode show ?thesis by (auto simp: visits_def dfs.simps pending_def)
  qed
next
  case (DependantNodeTree r deps n)
  let ?node = "DependantNodeTree r deps n"
  show ?case
  proof (cases "?node \<in> vis")
    case True
    with DependantNodeTree.prems
    have "set (reach ?node) \<subseteq> set ord \<or> size ?node < size ?node"
      unfolding pending_def by blast
    then have "set (reach ?node) \<subseteq> set ord" by blast
    then have "append_new ord (reach ?node) = ord" by (rule append_new_subset)
    with True DependantNodeTree.prems show ?thesis
      by (auto simp: visits_def dfs.simps pending_def)
  next
    case False
    let ?k = "size_list size deps + size n"
    have p0: "pending ?k (insert ?node vis) ord"
      using DependantNodeTree.prems by (auto simp: pending_def)
    have "visits (deps @ [n]) (insert ?node vis) ord"
    proof (rule visits_fold[where k = ?k])
      fix d and vis' :: "'a decl set" and ord'
      assume "d \<in> set (deps @ [n])" "pending (size d) vis' ord'"
      then show "visits [d] vis' ord'"
        using DependantNodeTree.IH by auto
    next
      fix d assume "d \<in> set (deps @ [n])"
      then show "size d \<le> ?k" using size_member[of d deps] by auto
    next
      show "pending ?k (insert ?node vis) ord" by (rule p0)
    qed
    then obtain vis' where
      f: "fold dfs (deps @ [n]) (insert ?node vis, ord) =
            (vis', append_new ord (concat (map reach (deps @ [n]))))" and
      sub: "insert ?node vis \<subseteq> vis'" and
      inn: "set (append_new ord (concat (map reach (deps @ [n])))) \<subseteq> vis'" and
      new: "\<forall>t\<in>vis'. t \<in> insert ?node vis \<or>
              set (reach t) \<subseteq> set (append_new ord (concat (map reach (deps @ [n]))))"
      by (auto simp: visits_def)
    have r: "concat (map reach (deps @ [n])) = reach ?node" by simp
    have r1: "concat (map reach [?node]) = reach ?node" by (simp del: reach.simps)
    have d: "dfs ?node (vis, ord) = fold dfs (deps @ [n]) (insert ?node vis, ord)"
      using False by (simp add: dfs.simps)
    let ?o = "append_new ord (reach ?node)"
    have self: "set (reach ?node) \<subseteq> set ?o"
      by (simp only: set_append_new) blast
    show ?thesis
      unfolding visits_def r1
    proof (intro exI[of _ vis'] conjI ballI)
      show "fold dfs [?node] (vis, ord) = (vis', ?o)"
        using d f unfolding r by simp
      show "vis \<subseteq> vis'" using sub by blast
      show "set ?o \<subseteq> vis'"
        using inn unfolding r .
    next
      fix t assume "t \<in> vis'"
      with new have "t \<in> insert ?node vis \<or> set (reach t) \<subseteq> set ?o"
        unfolding r by blast
      with self show "t \<in> vis \<or> set (reach t) \<subseteq> set ?o"
        by blast
    qed
  qed
qed

lemma unravel_first_reached:
  "unravelOrderOfDependencies trees = append_new [] (concat (map reach trees))"
proof -
  have "visits trees {} []"
    by (rule visits_fold[where k = "size_list size trees"])
       (auto intro: visits_dfs size_member simp: pending_def)
  then show ?thesis
    by (auto simp: visits_def unravelOrderOfDependencies_def)
qed

lemma reach_raw: "x \<in> set (reach t) \<Longrightarrow> \<not> instanceof_DependantNodeTree x"
  by (induction t) auto

lemma underlying_reached: "underlying t \<in> set (reach t)"
  by (induction t) (auto simp: underlying_def)

lemma getVNode_underlying: "getVNode t = underlying t"
  by (cases t) (auto simp: underlying_def)


lemma circular_check_iff:
  "circular_check deps node =
     (if \<exists>dep\<in>set deps. instanceof_DependantNodeTree dep \<and> getVNode dep = underlying node
      then Some (Error ''Circular dependency detected'') else None)"
  by (induction deps) auto

text \<open>
  C3: \<open>depends\<close> throws at construction when a declared dependency is a wrapper whose
  underlying node is the node being wrapped, as in \<open>depends([depends([], X)], X)\<close>, and
  only then. A cycle through an intermediate (a wrapper of \<open>X\<close> that depends on a wrapper
  of \<open>Y\<close> that depends on a wrapper of \<open>X\<close>) is constructed without an error, and
  \<open>unravelOrderOfDependencies\<close> returns an order for it: the second visit of \<open>X\<close> is
  skipped.
\<close>
theorem depends_shallow_cycle_check:
  "depends r [DependantNodeTree r' [] (VNode x)] (VNode x)
     = Inl (Error ''Circular dependency detected'') \<and>
   depends r deps node =
     (if \<exists>dep\<in>set deps. instanceof_DependantNodeTree dep \<and> getVNode dep = underlying node
      then Inl (Error ''Circular dependency detected'')
      else Inr (DependantNodeTree r deps node)) \<and>
   (x \<noteq> y \<longrightarrow>
      depends ra [] (VNode x) = Inr (DependantNodeTree ra [] (VNode x)) \<and>
      depends rb [DependantNodeTree ra [] (VNode x)] (VNode y)
        = Inr (DependantNodeTree rb [DependantNodeTree ra [] (VNode x)] (VNode y)) \<and>
      depends rc [DependantNodeTree rb [DependantNodeTree ra [] (VNode x)] (VNode y)] (VNode x)
        = Inr (DependantNodeTree rc
                 [DependantNodeTree rb [DependantNodeTree ra [] (VNode x)] (VNode y)] (VNode x)) \<and>
      unravelOrderOfDependencies
        [DependantNodeTree rc
           [DependantNodeTree rb [DependantNodeTree ra [] (VNode x)] (VNode y)] (VNode x)]
        = [VNode x, VNode y])"
  by (simp add: depends_def circular_check_iff underlying_def unravel_first_reached)

theorem depends_shallow_cycle_check_witness:
  "depends 3 [DependantNodeTree 0 [] (VNode (1::nat))] (VNode 1)
     = Inl (Error ''Circular dependency detected'') \<and>
   (1::nat) \<noteq> 2 \<and>
   depends 0 [] (VNode (1::nat)) = Inr (DependantNodeTree 0 [] (VNode 1)) \<and>
   depends 1 [DependantNodeTree 0 [] (VNode (1::nat))] (VNode 2)
     = Inr (DependantNodeTree 1 [DependantNodeTree 0 [] (VNode 1)] (VNode 2)) \<and>
   depends 2 [DependantNodeTree 1 [DependantNodeTree 0 [] (VNode (1::nat))] (VNode 2)] (VNode 1)
     = Inr (DependantNodeTree 2
              [DependantNodeTree 1 [DependantNodeTree 0 [] (VNode 1)] (VNode 2)] (VNode 1)) \<and>
   unravelOrderOfDependencies
     [DependantNodeTree 2
        [DependantNodeTree 1 [DependantNodeTree 0 [] (VNode (1::nat))] (VNode 2)] (VNode 1)]
     = [VNode 1, VNode 2]"
  using depends_shallow_cycle_check
    [where r = 3 and r' = 0 and x = "1::nat" and deps = "[]::nat decl list" and node = "VNode (1::nat)"
       and y = "2::nat"
       and ra = 0 and rb = 1 and rc = 2]
  by simp

text \<open>
  C4, evaluated on the code. Supplied alone, in either order, a dependency-free
  declaration with node \<open>x\<close> and a declaration of \<open>y\<close> that depends on it come out as
  \<open>x\<close>, then \<open>y\<close>; in general \<open>x\<close> comes before \<open>y\<close> when \<open>y\<close> has not been reached
  before its declaration is visited. When it has, the visited set skips it and the
  dependency comes after its dependent: \<open>[Y, X, depends([X], Y)]\<close> yields \<open>[Y, X]\<close>,
  and so does \<open>[depends([Y], W), X, depends([X], Y)]\<close> with \<open>[Y, W, X]\<close>. Two
  declarations without an ordering constraint between them come out in the order in
  which the traversal first reaches them: \<open>[depends([n3], n4), n2, n3]\<close> yields
  \<open>[n3, n4, n2]\<close>.
\<close>
theorem unravel_order:
  "(x \<noteq> y \<longrightarrow>
      unravelOrderOfDependencies
        [DependantNodeTree r1 [] (VNode x),
         DependantNodeTree r2 [DependantNodeTree r1 [] (VNode x)] (VNode y)]
        = [VNode x, VNode y] \<and>
      unravelOrderOfDependencies
        [DependantNodeTree r2 [DependantNodeTree r1 [] (VNode x)] (VNode y),
         DependantNodeTree r1 [] (VNode x)]
        = [VNode x, VNode y]) \<and>
   (reach d1 = [VNode x] \<and> x \<noteq> y \<and> getVNode (DependantNodeTree r [d1] n) = VNode y \<and>
    VNode y \<notin> set (concat (map reach before)) \<longrightarrow>
    precedes (VNode x) (VNode y)
      (unravelOrderOfDependencies (before @ DependantNodeTree r [d1] n # after))) \<and>
   (x \<noteq> y \<longrightarrow>
      depends r [VNode x] (VNode y) = Inr (DependantNodeTree r [VNode x] (VNode y)) \<and>
      unravelOrderOfDependencies [VNode y, VNode x, DependantNodeTree r [VNode x] (VNode y)]
        = [VNode y, VNode x] \<and>
      \<not> precedes (VNode x) (VNode y)
          (unravelOrderOfDependencies
             [VNode y, VNode x, DependantNodeTree r [VNode x] (VNode y)])) \<and>
   (x \<noteq> y \<and> x \<noteq> w \<and> y \<noteq> w \<longrightarrow>
      unravelOrderOfDependencies
        [DependantNodeTree r1 [VNode y] (VNode w), VNode x,
         DependantNodeTree r2 [VNode x] (VNode y)]
        = [VNode y, VNode w, VNode x]) \<and>
   (x \<noteq> y \<and> x \<noteq> w \<and> y \<noteq> w \<longrightarrow>
      unravelOrderOfDependencies [DependantNodeTree r [VNode x] (VNode y), VNode w, VNode x]
        = [VNode x, VNode y, VNode w])"
proof (intro conjI impI)
  assume h: "reach d1 = [VNode x] \<and> x \<noteq> y \<and> getVNode (DependantNodeTree r [d1] n) = VNode y \<and>
    VNode y \<notin> set (concat (map reach before))"
  let ?us = "concat (map reach before)"
  let ?vs = "reach n @ concat (map reach after)"
  have "underlying n = VNode y" using h by (simp add: underlying_def)
  then have "VNode y \<in> set (reach n)" using underlying_reached[of n] by simp
  then have "VNode y \<in> set ?vs" by simp
  moreover have "VNode x \<noteq> VNode y" using h by simp
  moreover have "VNode y \<notin> set ?us" using h by simp
  ultimately have "precedes (VNode x) (VNode y) (append_new [] (?us @ VNode x # ?vs))"
    by (intro precedes_append_new)
  moreover have "concat (map reach (before @ DependantNodeTree r [d1] n # after))
      = ?us @ VNode x # ?vs" using h by simp
  ultimately show "precedes (VNode x) (VNode y)
      (unravelOrderOfDependencies (before @ DependantNodeTree r [d1] n # after))"
    by (simp only: unravel_first_reached)
qed (auto simp: unravel_first_reached precedes_def depends_def)

theorem unravel_order_witness:
  "unravelOrderOfDependencies
     [DependantNodeTree 1 [] (VNode (1::nat)),
      DependantNodeTree 0 [DependantNodeTree 1 [] (VNode 1)] (VNode 2)] = [VNode 1, VNode 2] \<and>
   unravelOrderOfDependencies
     [DependantNodeTree 0 [DependantNodeTree 1 [] (VNode (1::nat))] (VNode 2),
      DependantNodeTree 1 [] (VNode 1)] = [VNode 1, VNode 2] \<and>
   reach (DependantNodeTree 1 [] (VNode (1::nat))) = [VNode 1] \<and> (1::nat) \<noteq> 2 \<and>
   getVNode (DependantNodeTree 0 [DependantNodeTree 1 [] (VNode (1::nat))] (VNode 2)) = VNode 2 \<and>
   VNode (2::nat) \<notin> set (concat (map reach [VNode 3])) \<and>
   precedes (VNode (1::nat)) (VNode 2)
     (unravelOrderOfDependencies
        ([VNode 3] @ DependantNodeTree 0 [DependantNodeTree 1 [] (VNode 1)] (VNode 2) # [VNode 1])) \<and>
   unravelOrderOfDependencies [VNode 2, VNode (1::nat), DependantNodeTree 0 [VNode 1] (VNode 2)]
     = [VNode 2, VNode 1] \<and>
   \<not> precedes (VNode (1::nat)) (VNode 2)
       (unravelOrderOfDependencies [VNode 2, VNode 1, DependantNodeTree 0 [VNode 1] (VNode 2)]) \<and>
   unravelOrderOfDependencies
     [DependantNodeTree 1 [VNode 2] (VNode 3), VNode (1::nat), DependantNodeTree 0 [VNode 1] (VNode 2)]
     = [VNode 2, VNode 3, VNode 1] \<and>
   unravelOrderOfDependencies [DependantNodeTree 0 [VNode (1::nat)] (VNode 2), VNode 3, VNode 1]
     = [VNode 1, VNode 2, VNode 3]"
  using unravel_order
    [where ?d1.0 = "DependantNodeTree 1 [] (VNode (1::nat))" and x = "1::nat" and y = "2::nat"
       and w = "3::nat" and r = 0 and ?r1.0 = 1 and ?r2.0 = 0
       and n = "VNode (2::nat)" and before = "[VNode (3::nat)]"
       and after = "[VNode (1::nat)]"]
  by (simp add: precedes_def)

text \<open>
  C10: the output of \<open>unravelOrderOfDependencies\<close> holds raw nodes only, never a
  wrapper, and no node twice.
\<close>
theorem unravel_raw_distinct:
  "(\<forall>node\<in>set (unravelOrderOfDependencies trees). \<not> instanceof_DependantNodeTree node) \<and>
   distinct (unravelOrderOfDependencies trees)"
proof -
  have "set (unravelOrderOfDependencies trees) = set (concat (map reach trees))"
    by (simp add: unravel_first_reached set_append_new)
  then have "\<forall>node\<in>set (unravelOrderOfDependencies trees). \<not> instanceof_DependantNodeTree node"
    by (auto dest: reach_raw)
  moreover have "distinct (unravelOrderOfDependencies trees)"
    by (simp add: unravel_first_reached distinct_append_new)
  ultimately show ?thesis by blast
qed

theorem unravel_raw_distinct_witness:
  "unravelOrderOfDependencies
     [VNode (1::nat), DependantNodeTree 0 [VNode 1, DependantNodeTree 1 [VNode 2] (VNode 1)] (VNode 2),
      VNode 1, DependantNodeTree 1 [VNode 2] (VNode 1)] = [VNode 1, VNode 2] \<and>
   \<not> instanceof_DependantNodeTree (VNode (1::nat)) \<and>
   \<not> instanceof_DependantNodeTree (VNode (2::nat)) \<and>
   distinct (unravelOrderOfDependencies
     [VNode (1::nat), DependantNodeTree 0 [VNode 1, DependantNodeTree 1 [VNode 2] (VNode 1)] (VNode 2),
      VNode 1, DependantNodeTree 1 [VNode 2] (VNode 1)])"
  using unravel_raw_distinct
    [of "[VNode (1::nat), DependantNodeTree 0 [VNode 1, DependantNodeTree 1 [VNode 2] (VNode 1)] (VNode 2),
      VNode 1, DependantNodeTree 1 [VNode 2] (VNode 1)]"]
  by (simp add: unravel_first_reached)

section \<open>Rendering\<close>

text \<open>
  The parameters the host leaves open: the conversion of a string to a number, and
  which of several rejected promises \<open>Promise.all\<close> reports (the one that settles first;
  the index is taken modulo the number of rejections). Every theorem holds for every
  host.
\<close>

record host =
  stringToNumber :: "string \<Rightarrow> jsnum"
  firstRejection :: "(thrown + jsval) list \<Rightarrow> nat"

text \<open>
  A node: null or undefined, a primitive, a value without a \<open>type\<close> field, or an
  element by the \<open>typeof\<close> of its \<open>type\<close>. A function element carries the name of its
  component and what the call \<open>vnode.type(props)\<close> on its own props and children comes
  to, awaited: a thrown value or the node returned. An element of any other \<open>typeof\<close>
  carries its type as a property key.
\<close>

datatype primitive = PString string | PNumber jsnum | PBoolean bool

datatype symbol = FragmentSymbol | ListSymbol | OtherSymbol string

datatype vnode =
    Nullish
  | Primitive primitive
  | NoType
  | FunctionElement string "thrown + vnode"
  | StringElement string "vnode list"
  | SymbolElement symbol "vnode list"
  | OtherElement string "vnode list"

fun Number :: "host \<Rightarrow> primitive \<Rightarrow> jsnum" where
  "Number h (PString s) = stringToNumber h s"
| "Number h (PNumber n) = n"
| "Number h (PBoolean b) = (if b then Finite 1 else Finite 0)"

definition isNaN :: "jsnum \<Rightarrow> bool" where
  "isNaN n = (n = NaN)"

fun plain :: "primitive \<Rightarrow> jsval" where
  "plain (PString s) = JStr s"
| "plain (PNumber n) = JNum n"
| "plain (PBoolean b) = JBool b"

definition renderPrimitive :: "host \<Rightarrow> primitive \<Rightarrow> jsval" where
  "renderPrimitive h vnode =
     (if (case vnode of PString s \<Rightarrow> length s = 0 | _ \<Rightarrow> False) then JStr []
      else if \<not> isNaN (Number h vnode) then JNum (Number h vnode)
      else if vnode = PString ''true'' \<or> vnode = PString ''false''
        then JBool (vnode = PString ''true'')
      else plain vnode)"

text \<open>
  The \<open>catch\<close> clause of \<open>renderToObject\<close>, with the call stack as it stands when the
  body throws. The call stack is pushed to before the body descends, and every child
  receives a copy. The push for a primitive leaf is left out: nothing after it throws.
\<close>

fun catch_clause :: "string list \<Rightarrow> thrown \<Rightarrow> thrown" where
  "catch_clause callStack (OriginError message stack) = OriginError message stack"
| "catch_clause callStack (Error message) = OriginError message callStack"
| "catch_clause callStack (NonError v) = Error ''Unknown error''"

definition try_catch :: "string list \<Rightarrow> thrown + 'a \<Rightarrow> thrown + 'a" where
  "try_catch callStack body =
     (case body of Inl e \<Rightarrow> Inl (catch_clause callStack e) | Inr v \<Rightarrow> Inr v)"

text \<open>
  \<open>Promise.all\<close> over the outcomes of the promises: all the values in order, or the
  reason of one rejection. \<open>reduce_deepMerge\<close> is
  \<open>results.reduce((acc, result) => deepMerge(acc, result), acc)\<close>.
\<close>

fun rejections :: "(thrown + 'a) list \<Rightarrow> thrown list" where
  "rejections [] = []"
| "rejections (Inl e # rs) = e # rejections rs"
| "rejections (Inr v # rs) = rejections rs"

fun fulfilments :: "(thrown + 'a) list \<Rightarrow> 'a list" where
  "fulfilments [] = []"
| "fulfilments (Inl e # rs) = fulfilments rs"
| "fulfilments (Inr v # rs) = v # fulfilments rs"

definition Promise_all :: "host \<Rightarrow> (thrown + jsval) list \<Rightarrow> thrown + jsval list" where
  "Promise_all h promises =
     (if rejections promises = [] then Inr (fulfilments promises)
      else Inl (rejections promises !
                  (firstRejection h promises mod length (rejections promises))))"

fun reduce_deepMerge :: "jsval \<Rightarrow> jsval list \<Rightarrow> thrown + jsval" where
  "reduce_deepMerge acc [] = Inr acc"
| "reduce_deepMerge acc (result # results) =
     (case deepMerge acc result of
        Inl e \<Rightarrow> Inl e
      | Inr acc' \<Rightarrow> reduce_deepMerge acc' results)"

definition symbol_String :: "symbol \<Rightarrow> string" where
  "symbol_String s =
     (case s of
        FragmentSymbol \<Rightarrow> ''Symbol(Fragment)''
      | ListSymbol \<Rightarrow> ''Symbol(List)''
      | OtherSymbol d \<Rightarrow> ''Symbol('' @ d @ '')'')"

lemma size_first_child:
  "length children = 1 \<Longrightarrow> size (children ! 0) < Suc (size_list size children)"
  by (cases children) auto

lemma size_child:
  "child \<in> set children \<Longrightarrow> size child < Suc (size_list size children)"
  by (induction children) auto

function renderToObject :: "host \<Rightarrow> vnode \<Rightarrow> string list \<Rightarrow> thrown + jsval" where
  "renderToObject h Nullish callStack = Inr JNull"
| "renderToObject h (Primitive p) callStack = Inr (renderPrimitive h p)"
| "renderToObject h NoType callStack =
     try_catch callStack (Inl (Error ''Object is not a valid VNode''))"
| "renderToObject h (FunctionElement name result) callStack =
     try_catch (callStack @ [name])
       (case result of
          Inl e \<Rightarrow> Inl e
        | Inr vnode \<Rightarrow> renderToObject h vnode (callStack @ [name]))"
| "renderToObject h (StringElement type children) callStack =
     try_catch (callStack @ [type])
       (if length children = 1 then
          (case renderToObject h (children ! 0) (callStack @ [type]) of
             Inl e \<Rightarrow> Inl e
           | Inr v \<Rightarrow> Inr (JObj [(type, v)]))
        else
          (case Promise_all h
                  (map (\<lambda>child. renderToObject h child (callStack @ [type])) children) of
             Inl e \<Rightarrow> Inl e
           | Inr results \<Rightarrow>
               (case reduce_deepMerge (JObj []) results of
                  Inl e \<Rightarrow> Inl e
                | Inr merged \<Rightarrow> Inr (JObj [(type, merged)]))))"
| "renderToObject h (SymbolElement type children) callStack =
     try_catch callStack
       (if type \<noteq> FragmentSymbol \<and> type \<noteq> ListSymbol then
          Inl (Error (''Tried to render symbol '' @ symbol_String type @ '' as a component''))
        else if type = ListSymbol then
          (case Promise_all h (map (\<lambda>child. renderToObject h child callStack) children) of
             Inl e \<Rightarrow> Inl e
           | Inr results \<Rightarrow> Inr (JArr results))
        else
          (case Promise_all h (map (\<lambda>child. renderToObject h child callStack) children) of
             Inl e \<Rightarrow> Inl e
           | Inr results \<Rightarrow> reduce_deepMerge (JObj []) results))"
| "renderToObject h (OtherElement type children) callStack =
     try_catch (callStack @ [''unknown''])
       (case Promise_all h
               (map (\<lambda>child. renderToObject h child (callStack @ [''unknown''])) children) of
          Inl e \<Rightarrow> Inl e
        | Inr results \<Rightarrow>
            (case reduce_deepMerge (JObj []) results of
               Inl e \<Rightarrow> Inl e
             | Inr merged \<Rightarrow> Inr (JObj [(type, merged)])))"
  by pat_completeness auto
termination
  by (relation "measure (\<lambda>(h, vnode, callStack). size vnode)")
     (auto simp: size_first_child size_child)

text \<open>\<open>OriginError.toString\<close>, with \<open>Array.prototype.join\<close>.\<close>

fun join :: "string \<Rightarrow> string list \<Rightarrow> string" where
  "join sep [] = []"
| "join sep [x] = x"
| "join sep (x # y # ys) = x @ sep @ join sep (y # ys)"

definition OriginError_toString :: "string \<Rightarrow> string list \<Rightarrow> string" where
  "OriginError_toString message callStack =
     join '' > '' callStack @ [CHR 0x0A] @ ''  '' @ message"

subsection \<open>Results and failures of the renderer\<close>

text \<open>
  A \<open>catch\<close> leaves a result alone, and \<open>Promise.all\<close> fulfils exactly when every
  promise does, with the values in the order of the promises. Hence the value a node
  renders to does not depend on the call stack it is rendered under.
\<close>

lemma try_catch_Inr: "try_catch cs body = Inr v \<longleftrightarrow> body = Inr v"
  by (cases body) (simp_all add: try_catch_def)

lemma rejections_Nil: "rejections ps = [] \<longleftrightarrow> ps = map Inr (fulfilments ps)"
  by (induction ps rule: rejections.induct) auto

lemma fulfilments_map_Inr: "fulfilments (map Inr vs) = vs"
  by (induction vs) auto

lemma Promise_all_Inr: "Promise_all h ps = Inr vs \<longleftrightarrow> ps = map Inr vs"
proof
  assume "Promise_all h ps = Inr vs"
  then have "rejections ps = []" "fulfilments ps = vs"
    by (auto simp: Promise_all_def split: if_splits)
  then show "ps = map Inr vs" using rejections_Nil by blast
next
  assume ps: "ps = map Inr vs"
  then have "rejections ps = []" using rejections_Nil fulfilments_map_Inr by metis
  with ps show "Promise_all h ps = Inr vs"
    by (simp add: Promise_all_def fulfilments_map_Inr)
qed

lemma Promise_all_Inl: "Promise_all h ps = Inl e \<Longrightarrow> Inl e \<in> set ps"
proof -
  assume a: "Promise_all h ps = Inl e"
  have sub: "\<And>x. x \<in> set (rejections ps) \<Longrightarrow> Inl x \<in> set ps"
    by (induction ps rule: rejections.induct) auto
  from a have ne: "rejections ps \<noteq> []" and
    e: "e = rejections ps ! (firstRejection h ps mod length (rejections ps))"
    by (auto simp: Promise_all_def split: if_splits)
  from ne have "firstRejection h ps mod length (rejections ps) < length (rejections ps)"
    by simp
  then have "e \<in> set (rejections ps)" unfolding e by (rule nth_mem)
  then show ?thesis by (rule sub)
qed

lemma children_fulfilled:
  assumes ind: "\<And>x r. x \<in> set children \<Longrightarrow> f x = Inr r \<Longrightarrow> g x = Inr r"
    and all: "map f children = map Inr vs"
  shows "map g children = map Inr vs"
  using assms
proof (induction children arbitrary: vs)
  case Nil
  then show ?case by simp
next
  case (Cons c children)
  from Cons.prems(2) obtain v vs' where vs: "vs = v # vs'" and fc: "f c = Inr v"
    and rest: "map f children = map Inr vs'"
    by (cases vs) auto
  have gc: "g c = Inr v" using Cons.prems(1)[of c v] fc by simp
  have "map g children = map Inr vs'"
  proof (rule Cons.IH)
    fix x r assume "x \<in> set children" "f x = Inr r"
    then show "g x = Inr r" using Cons.prems(1)[of x r] by simp
  next
    show "map f children = map Inr vs'" by (rule rest)
  qed
  with gc vs show ?case by simp
qed

lemma render_stack_independent:
  "renderToObject h vnode cs = Inr r \<Longrightarrow> renderToObject h vnode cs' = Inr r"
proof (induction h vnode cs arbitrary: r cs' rule: renderToObject.induct)
  case (1 h callStack)
  then show ?case by simp
next
  case (2 h p callStack)
  then show ?case by simp
next
  case (3 h callStack)
  then show ?case by (simp add: try_catch_def)
next
  case (4 h name result callStack)
  show ?case
  proof (cases result)
    case (Inl e)
    with "4.prems" show ?thesis by (simp add: try_catch_def)
  next
    case (Inr vnode)
    with "4.prems" have "renderToObject h vnode (callStack @ [name]) = Inr r"
      by (simp add: try_catch_Inr)
    from "4.IH"[OF Inr this, of "cs' @ [name]"] Inr show ?thesis
      by (simp add: try_catch_Inr)
  qed
next
  case (5 h type children callStack)
  show ?case
  proof (cases "length children = 1")
    case True
    with "5.prems" obtain v where
      c: "renderToObject h (children ! 0) (callStack @ [type]) = Inr v" and r: "r = JObj [(type, v)]"
      by (auto simp: try_catch_Inr split: sum.splits)
    from "5.IH"(1)[OF True c, of "cs' @ [type]"] True r show ?thesis
      by (simp add: try_catch_Inr)
  next
    case False
    with "5.prems" obtain results merged where
      p: "Promise_all h (map (\<lambda>child. renderToObject h child (callStack @ [type])) children)
            = Inr results" and
      m: "reduce_deepMerge (JObj []) results = Inr merged" and r: "r = JObj [(type, merged)]"
      by (auto simp: try_catch_Inr split: sum.splits)
    from p have "map (\<lambda>child. renderToObject h child (callStack @ [type])) children
        = map Inr results" by (simp only: Promise_all_Inr)
    then have "map (\<lambda>child. renderToObject h child (cs' @ [type])) children = map Inr results"
      by (rule children_fulfilled[rotated]) (rule "5.IH"(2)[OF False])
    then have "Promise_all h (map (\<lambda>child. renderToObject h child (cs' @ [type])) children)
        = Inr results" by (simp only: Promise_all_Inr)
    with m r False show ?thesis by (simp add: try_catch_Inr)
  qed
next
  case (6 h type children callStack)
  show ?case
  proof (cases "type = ListSymbol")
    case True
    with "6.prems" obtain results where
      p: "Promise_all h (map (\<lambda>child. renderToObject h child callStack) children) = Inr results"
      and r: "r = JArr results"
      by (auto simp: try_catch_Inr split: sum.splits)
    from p have "map (\<lambda>child. renderToObject h child callStack) children = map Inr results"
      by (simp only: Promise_all_Inr)
    then have "map (\<lambda>child. renderToObject h child cs') children = map Inr results"
      by (rule children_fulfilled[rotated]) (rule "6.IH"(1), simp_all add: True)
    then have "Promise_all h (map (\<lambda>child. renderToObject h child cs') children) = Inr results"
      by (simp only: Promise_all_Inr)
    with r True show ?thesis by (simp add: try_catch_Inr)
  next
    case False
    show ?thesis
    proof (cases "type = FragmentSymbol")
      case True
      with "6.prems" obtain results where
        p: "Promise_all h (map (\<lambda>child. renderToObject h child callStack) children) = Inr results"
        and r: "reduce_deepMerge (JObj []) results = Inr r"
        by (auto simp: try_catch_Inr split: sum.splits)
      from p have "map (\<lambda>child. renderToObject h child callStack) children = map Inr results"
        by (simp only: Promise_all_Inr)
      then have "map (\<lambda>child. renderToObject h child cs') children = map Inr results"
        by (rule children_fulfilled[rotated]) (rule "6.IH"(2), simp_all add: True)
      then have "Promise_all h (map (\<lambda>child. renderToObject h child cs') children) = Inr results"
        by (simp only: Promise_all_Inr)
      with r True show ?thesis by (simp add: try_catch_Inr)
    next
      case False
      with \<open>type \<noteq> ListSymbol\<close> "6.prems" show ?thesis
        by (simp add: try_catch_def)
    qed
  qed
next
  case (7 h type children callStack)
  from "7.prems" obtain results merged where
    p: "Promise_all h (map (\<lambda>child. renderToObject h child (callStack @ [''unknown''])) children)
          = Inr results" and
    m: "reduce_deepMerge (JObj []) results = Inr merged" and r: "r = JObj [(type, merged)]"
    by (auto simp: try_catch_Inr split: sum.splits)
  from p have "map (\<lambda>child. renderToObject h child (callStack @ [''unknown''])) children
      = map Inr results" by (simp only: Promise_all_Inr)
  then have "map (\<lambda>child. renderToObject h child (cs' @ [''unknown''])) children = map Inr results"
    by (rule children_fulfilled[rotated]) (rule "7.IH")
  then have "Promise_all h (map (\<lambda>child. renderToObject h child (cs' @ [''unknown''])) children)
      = Inr results" by (simp only: Promise_all_Inr)
  with m r show ?case by (simp add: try_catch_Inr)
qed


lemma catch_clause_shape:
  "(\<exists>m p. catch_clause cs e = OriginError m p) \<or> catch_clause cs e = Error ''Unknown error''"
  by (cases e) simp_all

lemma try_catch_shape:
  "try_catch cs body = Inl e \<Longrightarrow> (\<exists>m p. e = OriginError m p) \<or> e = Error ''Unknown error''"
  using catch_clause_shape[of cs] by (cases body) (auto simp: try_catch_def)

lemma render_failure_shape:
  "renderToObject h vnode cs = Inl e \<Longrightarrow>
   (\<exists>m p. e = OriginError m p) \<or> e = Error ''Unknown error''"
  by (cases vnode) (simp_all only: renderToObject.simps try_catch_shape, simp_all)

lemma list_all2_map_Inr:
  "list_all2 (\<lambda>x v. f x = Inr v) xs vs \<Longrightarrow> map f xs = map Inr vs"
  by (induction rule: list_all2_induct) auto

text \<open>
  The reduction is the merge of the results one after the other, from the left; the
  first merge that throws ends it.
\<close>

lemma foldl_thrown:
  "foldl (\<lambda>acc result. case acc of Inl e \<Rightarrow> Inl e | Inr m \<Rightarrow> deepMerge m result) (Inl e) results
     = Inl e"
  by (induction results) auto

lemma reduce_deepMerge_foldl:
  "reduce_deepMerge acc results =
     foldl (\<lambda>acc result. case acc of Inl e \<Rightarrow> Inl e | Inr m \<Rightarrow> deepMerge m result)
       (Inr acc) results"
proof (induction results arbitrary: acc)
  case Nil
  then show ?case by simp
next
  case (Cons r results)
  show ?case
  proof (cases "deepMerge acc r")
    case (Inl e)
    then show ?thesis by (simp add: foldl_thrown)
  next
    case (Inr acc')
    with Cons.IH[of acc'] show ?thesis by simp
  qed
qed

lemma children_results:
  assumes "list_all2 (\<lambda>child v. renderToObject h child cs0 = Inr v) children results"
  shows "Promise_all h (map (\<lambda>child. renderToObject h child cs) children) = Inr results"
proof -
  from assms have "map (\<lambda>child. renderToObject h child cs0) children = map Inr results"
    by (rule list_all2_map_Inr)
  then have "map (\<lambda>child. renderToObject h child cs) children = map Inr results"
    by (rule children_fulfilled[rotated]) (rule render_stack_independent)
  then show ?thesis by (simp only: Promise_all_Inr)
qed

text \<open>
  C5: a string-tagged node with exactly one child renders to \<open>{ tag: render(child) }\<close>;
  with no child or several it renders to \<open>{ tag: m }\<close>, where \<open>m\<close> is the deep merge of
  the children's results from left to right, starting from the empty object: \<open>{}\<close> for
  no child, \<open>deepMerge(deepMerge({}, r1), r2)\<close> for two. When a merge throws, the node
  fails with what the \<open>catch\<close> clause makes of the error. A result is an object with
  the one key \<open>tag\<close>, never an array. The call stack a child is rendered under has no
  effect on its result.
\<close>
theorem render_string_element:
  "(renderToObject h child cs0 = Inr v \<longrightarrow>
      renderToObject h (StringElement tag [child]) cs = Inr (JObj [(tag, v)])) \<and>
   (length children \<noteq> 1 \<and>
    list_all2 (\<lambda>child v. renderToObject h child cs0 = Inr v) children results \<longrightarrow>
      renderToObject h (StringElement tag children) cs =
        (case foldl (\<lambda>acc result. case acc of Inl e \<Rightarrow> Inl e | Inr m \<Rightarrow> deepMerge m result)
                (Inr (JObj [])) results of
           Inl e \<Rightarrow> Inl (catch_clause (cs @ [tag]) e)
         | Inr m \<Rightarrow> Inr (JObj [(tag, m)]))) \<and>
   renderToObject h (StringElement tag []) cs = Inr (JObj [(tag, JObj [])]) \<and>
   (renderToObject h c1 cs0 = Inr r1 \<and> renderToObject h c2 cs0 = Inr r2 \<and>
    deepMerge (JObj []) r1 = Inr m1 \<and> deepMerge m1 r2 = Inr m \<longrightarrow>
      renderToObject h (StringElement tag [c1, c2]) cs = Inr (JObj [(tag, m)])) \<and>
   (renderToObject h (StringElement tag children) cs = Inr r \<longrightarrow> (\<exists>x. r = JObj [(tag, x)]))"
proof (intro conjI impI)
  assume "renderToObject h child cs0 = Inr v"
  then have "renderToObject h child (cs @ [tag]) = Inr v" by (rule render_stack_independent)
  then show "renderToObject h (StringElement tag [child]) cs = Inr (JObj [(tag, v)])"
    by (simp add: try_catch_Inr)
next
  assume a: "length children \<noteq> 1 \<and>
    list_all2 (\<lambda>child v. renderToObject h child cs0 = Inr v) children results"
  then have "list_all2 (\<lambda>child v. renderToObject h child cs0 = Inr v) children results"
    by simp
  then have p: "Promise_all h (map (\<lambda>child. renderToObject h child (cs @ [tag])) children)
      = Inr results" by (rule children_results)
  show "renderToObject h (StringElement tag children) cs =
        (case foldl (\<lambda>acc result. case acc of Inl e \<Rightarrow> Inl e | Inr m \<Rightarrow> deepMerge m result)
                (Inr (JObj [])) results of
           Inl e \<Rightarrow> Inl (catch_clause (cs @ [tag]) e)
         | Inr m \<Rightarrow> Inr (JObj [(tag, m)]))"
    using a p unfolding reduce_deepMerge_foldl[symmetric]
    by (cases "reduce_deepMerge (JObj []) results") (simp_all add: try_catch_def)
next
  show "renderToObject h (StringElement tag []) cs = Inr (JObj [(tag, JObj [])])"
    by (simp add: try_catch_def Promise_all_def)
next
  assume a: "renderToObject h c1 cs0 = Inr r1 \<and> renderToObject h c2 cs0 = Inr r2 \<and>
    deepMerge (JObj []) r1 = Inr m1 \<and> deepMerge m1 r2 = Inr m"
  then have "list_all2 (\<lambda>child v. renderToObject h child cs0 = Inr v) [c1, c2] [r1, r2]"
    by simp
  then have p: "Promise_all h (map (\<lambda>child. renderToObject h child (cs @ [tag])) [c1, c2])
      = Inr [r1, r2]" by (rule children_results)
  from a have "reduce_deepMerge (JObj []) [r1, r2] = Inr m" by simp
  with p show "renderToObject h (StringElement tag [c1, c2]) cs = Inr (JObj [(tag, m)])"
    by (simp add: try_catch_def)
next
  assume a: "renderToObject h (StringElement tag children) cs = Inr r"
  then show "\<exists>x. r = JObj [(tag, x)]"
    by (auto simp: try_catch_Inr split: sum.splits if_splits)
qed

text \<open>A host for the examples: only \<open>"5"\<close> converts to a number.\<close>

definition example_host :: host where
  "example_host =
     \<lparr> stringToNumber = (\<lambda>s. if s = ''5'' then Finite 5 else NaN),
       firstRejection = (\<lambda>promises. 0) \<rparr>"

theorem render_string_element_witness:
  "renderToObject example_host (Primitive (PString ''5'')) [] = Inr (JNum (Finite 5)) \<and>
   renderToObject example_host (StringElement ''x'' [Primitive (PString ''5'')]) [''y'']
     = Inr (JObj [(''x'', JNum (Finite 5))]) \<and>
   length [StringElement ''a'' [StringElement ''x'' [Primitive (PString ''5'')]],
           StringElement ''a'' [StringElement ''z'' [Primitive (PString ''hello'')]]] \<noteq> 1 \<and>
   renderToObject example_host
       (StringElement ''y'' [StringElement ''a'' [StringElement ''x'' [Primitive (PString ''5'')]],
                             StringElement ''a'' [StringElement ''z'' [Primitive (PString ''hello'')]]]) []
     = Inr (JObj [(''y'', JObj [(''a'', JObj [(''x'', JNum (Finite 5)), (''z'', JStr ''hello'')])])]) \<and>
   renderToObject example_host
       (StringElement ''y'' [StringElement ''x'' [Primitive (PString ''5'')],
                             StringElement ''z'' [Primitive (PString ''hello'')]]) []
     = Inr (JObj [(''y'', JObj [(''x'', JNum (Finite 5)), (''z'', JStr ''hello'')])]) \<and>
   renderToObject example_host
       (StringElement ''y'' [StringElement ''toString'' [Primitive (PString ''hello'')],
                             StringElement ''z'' [Primitive (PString ''hello'')]]) []
     = Inl (OriginError (conflict_message ''toString'') [''y''])"
proof -
  let ?x = "StringElement ''x'' [Primitive (PString ''5'')]"
  let ?z = "StringElement ''z'' [Primitive (PString ''hello'')]"
  let ?ts = "StringElement ''toString'' [Primitive (PString ''hello'')]"
  let ?c1 = "StringElement ''a'' [?x]"
  let ?c2 = "StringElement ''a'' [?z]"
  let ?rx = "JObj [(''x'', JNum (Finite 5))]"
  let ?rz = "JObj [(''z'', JStr ''hello'')]"
  let ?rts = "JObj [(''toString'', JStr ''hello'')]"
  let ?f = "\<lambda>acc result. case acc of Inl e \<Rightarrow> Inl e | Inr m \<Rightarrow> deepMerge m result"
  have leaf: "renderToObject example_host (Primitive (PString ''5'')) [] = Inr (JNum (Finite 5))"
    by (simp add: example_host_def renderPrimitive_def isNaN_def)
  have ex: "renderToObject example_host ?x [] = Inr ?rx"
    by (simp add: example_host_def renderPrimitive_def isNaN_def try_catch_def)
  have ez: "renderToObject example_host ?z [] = Inr ?rz"
    by (simp add: example_host_def renderPrimitive_def isNaN_def try_catch_def)
  have ets: "renderToObject example_host ?ts [] = Inr ?rts"
    by (simp add: example_host_def renderPrimitive_def isNaN_def try_catch_def)
  note t = render_string_element[where h = example_host and ?cs0.0 = "[]"]
  have one: "renderToObject example_host ?x [''y''] = Inr ?rx"
    using t[where child = "Primitive (PString ''5'')" and v = "JNum (Finite 5)" and tag = "''x''"
             and cs = "[''y'']"] leaf by blast
  have e1: "renderToObject example_host ?c1 [] = Inr (JObj [(''a'', ?rx)])"
    using t[where child = ?x and v = ?rx and tag = "''a''" and cs = "[]"] ex by blast
  have e2: "renderToObject example_host ?c2 [] = Inr (JObj [(''a'', ?rz)])"
    using t[where child = ?z and v = ?rz and tag = "''a''" and cs = "[]"] ez by blast
  have m1: "foldl ?f (Inr (JObj [])) [JObj [(''a'', ?rx)], JObj [(''a'', ?rz)]]
      = Inr (JObj [(''a'', JObj [(''x'', JNum (Finite 5)), (''z'', JStr ''hello'')])])"
    by code_simp
  have m2: "deepMerge (JObj []) ?rx = Inr ?rx" by code_simp
  have m3: "deepMerge ?rx ?rz = Inr (JObj [(''x'', JNum (Finite 5)), (''z'', JStr ''hello'')])"
    by code_simp
  have m4: "foldl ?f (Inr (JObj [])) [?rts, ?rz] = Inl (Error (conflict_message ''toString''))"
    by code_simp
  have nested: "renderToObject example_host (StringElement ''y'' [?c1, ?c2]) []
      = Inr (JObj [(''y'', JObj [(''a'', JObj [(''x'', JNum (Finite 5)), (''z'', JStr ''hello'')])])])"
    using t[where children = "[?c1, ?c2]" and results = "[JObj [(''a'', ?rx)], JObj [(''a'', ?rz)]]"
             and tag = "''y''" and cs = "[]"] e1 e2 m1 by simp
  have two: "renderToObject example_host (StringElement ''y'' [?x, ?z]) []
      = Inr (JObj [(''y'', JObj [(''x'', JNum (Finite 5)), (''z'', JStr ''hello'')])])"
    using t[where ?c1.0 = ?x and ?c2.0 = ?z and ?r1.0 = ?rx and ?r2.0 = ?rz and ?m1.0 = ?rx
             and m = "JObj [(''x'', JNum (Finite 5)), (''z'', JStr ''hello'')]"
             and tag = "''y''" and cs = "[]"] ex ez m2 m3 by blast
  have clash: "renderToObject example_host (StringElement ''y'' [?ts, ?z]) []
      = Inl (OriginError (conflict_message ''toString'') [''y''])"
    using t[where children = "[?ts, ?z]" and results = "[?rts, ?rz]"
             and tag = "''y''" and cs = "[]"] ets ez m4 by simp
  from leaf one nested two clash show ?thesis by simp
qed

text \<open>
  The path of an error thrown under a chain of single-child string elements: \<open>nest\<close>
  wraps a node in elements of the given tags, the outermost first.
\<close>

fun nest :: "string list \<Rightarrow> vnode \<Rightarrow> vnode" where
  "nest [] vnode = vnode"
| "nest (tag # tags) vnode = StringElement tag [nest tags vnode]"

lemma render_nested_failure:
  "renderToObject h (nest tags (FunctionElement name (Inl (Error m)))) cs
     = Inl (OriginError m (cs @ tags @ [name]))"
proof (induction tags arbitrary: cs)
  case Nil
  show ?case by (simp add: try_catch_def)
next
  case (Cons tag tags)
  from Cons.IH[of "cs @ [tag]"] show ?case by (simp add: try_catch_def)
qed

lemma join_snoc: "join sep (path @ [q]) = concat (map (\<lambda>s. s @ sep) path) @ q"
proof (induction path)
  case Nil
  show ?case by simp
next
  case (Cons a path)
  then show ?case by (cases path) simp_all
qed

lemma reduce_thrown:
  assumes "list_all2 (\<lambda>child v. renderToObject h child cs0 = Inr v) children results"
    and "foldl (\<lambda>acc result. case acc of Inl e \<Rightarrow> Inl e | Inr m \<Rightarrow> deepMerge m result)
           (Inr (JObj [])) results = Inl e"
  shows "Promise_all h (map (\<lambda>child. renderToObject h child cs) children) = Inr results"
    and "reduce_deepMerge (JObj []) results = Inl e"
  using assms by (simp_all add: children_results reduce_deepMerge_foldl)

text \<open>
  C8. The \<open>catch\<close> clause of every call passes an \<open>OriginError\<close> on unchanged, throws
  another \<open>Error\<close> again as an \<open>OriginError\<close> with its message and the call stack of
  the call, and replaces a thrown value that is no \<open>Error\<close> by the generic
  \<open>Error('Unknown error')\<close>. The call stack of a call is the path of its ancestors, with
  the name of the node itself unless its type is a symbol. This holds at every kind of
  node and for every source of the error: a rejected child, a component that throws, a
  merge that throws, a symbol that is not supported, a value that is no node. An error
  thrown by a component under a chain of elements carries the whole path. The text of an
  \<open>OriginError\<close> is the path joined by \<open>" > "\<close>, a line break, two blanks and the
  message. Every failure of the renderer is an \<open>OriginError\<close> or the generic error.
\<close>
theorem render_failure_context:
  "catch_clause stack (OriginError m p) = OriginError m p \<and>
   catch_clause stack (Error m) = OriginError m stack \<and>
   catch_clause stack (NonError x) = Error ''Unknown error'' \<and>
   renderToObject h (FunctionElement name (Inl e)) cs = Inl (catch_clause (cs @ [name]) e) \<and>
   (renderToObject h child (cs @ [name]) = Inl e \<longrightarrow>
      renderToObject h (FunctionElement name (Inr child)) cs = Inl (catch_clause (cs @ [name]) e)) \<and>
   (renderToObject h child (cs @ [tag]) = Inl e \<longrightarrow>
      renderToObject h (StringElement tag [child]) cs = Inl (catch_clause (cs @ [tag]) e)) \<and>
   (length children \<noteq> 1 \<and>
    Promise_all h (map (\<lambda>child. renderToObject h child (cs @ [tag])) children) = Inl e \<longrightarrow>
      renderToObject h (StringElement tag children) cs = Inl (catch_clause (cs @ [tag]) e)) \<and>
   (length children \<noteq> 1 \<and>
    list_all2 (\<lambda>child v. renderToObject h child cs0 = Inr v) children results \<and>
    foldl (\<lambda>acc result. case acc of Inl e \<Rightarrow> Inl e | Inr m \<Rightarrow> deepMerge m result)
      (Inr (JObj [])) results = Inl e \<longrightarrow>
      renderToObject h (StringElement tag children) cs = Inl (catch_clause (cs @ [tag]) e)) \<and>
   ((symb = FragmentSymbol \<or> symb = ListSymbol) \<and>
    Promise_all h (map (\<lambda>child. renderToObject h child cs) children) = Inl e \<longrightarrow>
      renderToObject h (SymbolElement symb children) cs = Inl (catch_clause cs e)) \<and>
   (list_all2 (\<lambda>child v. renderToObject h child cs0 = Inr v) children results \<and>
    foldl (\<lambda>acc result. case acc of Inl e \<Rightarrow> Inl e | Inr m \<Rightarrow> deepMerge m result)
      (Inr (JObj [])) results = Inl e \<longrightarrow>
      renderToObject h (SymbolElement FragmentSymbol children) cs = Inl (catch_clause cs e)) \<and>
   (symb \<noteq> FragmentSymbol \<and> symb \<noteq> ListSymbol \<longrightarrow>
      renderToObject h (SymbolElement symb children) cs =
        Inl (OriginError (''Tried to render symbol '' @ symbol_String symb @ '' as a component'') cs)) \<and>
   (Promise_all h (map (\<lambda>child. renderToObject h child (cs @ [''unknown''])) children) = Inl e \<longrightarrow>
      renderToObject h (OtherElement type children) cs = Inl (catch_clause (cs @ [''unknown'']) e)) \<and>
   (list_all2 (\<lambda>child v. renderToObject h child cs0 = Inr v) children results \<and>
    foldl (\<lambda>acc result. case acc of Inl e \<Rightarrow> Inl e | Inr m \<Rightarrow> deepMerge m result)
      (Inr (JObj [])) results = Inl e \<longrightarrow>
      renderToObject h (OtherElement type children) cs = Inl (catch_clause (cs @ [''unknown'']) e)) \<and>
   renderToObject h NoType cs = Inl (OriginError ''Object is not a valid VNode'' cs) \<and>
   renderToObject h (nest tags (FunctionElement name (Inl (Error m)))) cs
     = Inl (OriginError m (cs @ tags @ [name])) \<and>
   renderToObject h (StringElement tag [FunctionElement name (Inl (NonError x))]) cs
     = Inl (OriginError ''Unknown error'' (cs @ [tag])) \<and>
   OriginError_toString m (path @ [q])
     = concat (map (\<lambda>s. s @ '' > '') path) @ q @ [CHR 0x0A] @ ''  '' @ m \<and>
   (renderToObject h vnode cs = Inl e \<longrightarrow>
      (\<exists>m' p'. e = OriginError m' p') \<or> e = Error ''Unknown error'')"
proof (intro conjI impI)
  assume a: "length children \<noteq> 1 \<and>
    list_all2 (\<lambda>child v. renderToObject h child cs0 = Inr v) children results \<and>
    foldl (\<lambda>acc result. case acc of Inl e \<Rightarrow> Inl e | Inr m \<Rightarrow> deepMerge m result)
      (Inr (JObj [])) results = Inl e"
  then have l: "list_all2 (\<lambda>child v. renderToObject h child cs0 = Inr v) children results"
    and f: "foldl (\<lambda>acc result. case acc of Inl e \<Rightarrow> Inl e | Inr m \<Rightarrow> deepMerge m result)
      (Inr (JObj [])) results = Inl e" by simp_all
  have "Promise_all h (map (\<lambda>child. renderToObject h child (cs @ [tag])) children) = Inr results"
    and "reduce_deepMerge (JObj []) results = Inl e"
    by (rule reduce_thrown[OF l f])+
  with a show "renderToObject h (StringElement tag children) cs = Inl (catch_clause (cs @ [tag]) e)"
    by (simp add: try_catch_def)
next
  assume a: "list_all2 (\<lambda>child v. renderToObject h child cs0 = Inr v) children results \<and>
    foldl (\<lambda>acc result. case acc of Inl e \<Rightarrow> Inl e | Inr m \<Rightarrow> deepMerge m result)
      (Inr (JObj [])) results = Inl e"
  then have l: "list_all2 (\<lambda>child v. renderToObject h child cs0 = Inr v) children results"
    and f: "foldl (\<lambda>acc result. case acc of Inl e \<Rightarrow> Inl e | Inr m \<Rightarrow> deepMerge m result)
      (Inr (JObj [])) results = Inl e" by simp_all
  have "Promise_all h (map (\<lambda>child. renderToObject h child cs) children) = Inr results"
    and "reduce_deepMerge (JObj []) results = Inl e"
    by (rule reduce_thrown[OF l f])+
  then show "renderToObject h (SymbolElement FragmentSymbol children) cs = Inl (catch_clause cs e)"
    by (simp add: try_catch_def)
next
  assume a: "list_all2 (\<lambda>child v. renderToObject h child cs0 = Inr v) children results \<and>
    foldl (\<lambda>acc result. case acc of Inl e \<Rightarrow> Inl e | Inr m \<Rightarrow> deepMerge m result)
      (Inr (JObj [])) results = Inl e"
  then have l: "list_all2 (\<lambda>child v. renderToObject h child cs0 = Inr v) children results"
    and f: "foldl (\<lambda>acc result. case acc of Inl e \<Rightarrow> Inl e | Inr m \<Rightarrow> deepMerge m result)
      (Inr (JObj [])) results = Inl e" by simp_all
  have "Promise_all h (map (\<lambda>child. renderToObject h child (cs @ [''unknown''])) children)
      = Inr results"
    and "reduce_deepMerge (JObj []) results = Inl e"
    by (rule reduce_thrown[OF l f])+
  then show "renderToObject h (OtherElement type children) cs
      = Inl (catch_clause (cs @ [''unknown'']) e)"
    by (simp add: try_catch_def)
next
  show "renderToObject h (nest tags (FunctionElement name (Inl (Error m)))) cs
     = Inl (OriginError m (cs @ tags @ [name]))" by (rule render_nested_failure)
next
  show "OriginError_toString m (path @ [q])
     = concat (map (\<lambda>s. s @ '' > '') path) @ q @ [CHR 0x0A] @ ''  '' @ m"
    by (simp only: OriginError_toString_def join_snoc append_assoc)
next
  assume "renderToObject h vnode cs = Inl e"
  then show "(\<exists>m' p'. e = OriginError m' p') \<or> e = Error ''Unknown error''"
    by (rule render_failure_shape)
qed (auto simp: try_catch_def)

theorem render_failure_context_witness:
  "renderToObject example_host
       (FunctionElement ''Containers'' (Inl (OriginError ''boom'' [''inner'']))) [''Deployment'']
     = Inl (OriginError ''boom'' [''inner'']) \<and>
   renderToObject example_host
       (StringElement ''spec'' [FunctionElement ''Containers'' (Inl (OriginError ''boom'' [''inner'']))])
       [''Deployment'']
     = Inl (OriginError ''boom'' [''inner'']) \<and>
   renderToObject example_host
       (StringElement ''spec'' [FunctionElement ''Containers'' (Inl (Error ''boom''))])
       [''Deployment'']
     = Inl (OriginError ''boom'' [''Deployment'', ''spec'', ''Containers'']) \<and>
   renderToObject example_host
       (StringElement ''y'' [StringElement ''toString'' [Primitive (PString ''hello'')],
                             StringElement ''z'' [Primitive (PString ''hello'')]])
       [''Deployment'']
     = Inl (OriginError (conflict_message ''toString'') [''Deployment'', ''y'']) \<and>
   renderToObject example_host
       (SymbolElement FragmentSymbol [StringElement ''toString'' [Primitive (PString ''hello'')],
                                      StringElement ''z'' [Primitive (PString ''hello'')]])
       [''Deployment'']
     = Inl (OriginError (conflict_message ''toString'') [''Deployment'']) \<and>
   renderToObject example_host
       (OtherElement ''o'' [StringElement ''toString'' [Primitive (PString ''hello'')],
                            StringElement ''z'' [Primitive (PString ''hello'')]])
       [''Deployment'']
     = Inl (OriginError (conflict_message ''toString'') [''Deployment'', ''unknown'']) \<and>
   renderToObject example_host
       (StringElement ''y'' [FunctionElement ''Containers'' (Inl (Error ''boom'')),
                             StringElement ''z'' [Primitive (PString ''hello'')]])
       [''Deployment'']
     = Inl (OriginError ''boom'' [''Deployment'', ''y'', ''Containers'']) \<and>
   renderToObject example_host
       (SymbolElement ListSymbol [FunctionElement ''Containers'' (Inl (NonError JNull))])
       [''Deployment'']
     = Inl (OriginError ''Unknown error'' [''Deployment'']) \<and>
   renderToObject example_host (SymbolElement (OtherSymbol ''x'') []) [''Deployment'']
     = Inl (OriginError ''Tried to render symbol Symbol(x) as a component'' [''Deployment'']) \<and>
   renderToObject example_host (FunctionElement ''Containers'' (Inl (NonError JNull)))
       [''Deployment'']
     = Inl (Error ''Unknown error'') \<and>
   renderToObject example_host
       (StringElement ''spec'' [FunctionElement ''Containers'' (Inl (NonError JNull))])
       [''Deployment'']
     = Inl (OriginError ''Unknown error'' [''Deployment'', ''spec'']) \<and>
   OriginError_toString ''boom'' [''Deployment'', ''spec'', ''Containers'', ''unknown'']
     = ''Deployment > spec > Containers > unknown'' @ [CHR 0x0A] @ ''  boom''"
proof -
  let ?ts = "StringElement ''toString'' [Primitive (PString ''hello'')]"
  let ?z = "StringElement ''z'' [Primitive (PString ''hello'')]"
  let ?rts = "JObj [(''toString'', JStr ''hello'')]"
  let ?rz = "JObj [(''z'', JStr ''hello'')]"
  let ?f = "\<lambda>acc result. case acc of Inl e \<Rightarrow> Inl e | Inr m \<Rightarrow> deepMerge m result"
  let ?boom = "FunctionElement ''Containers'' (Inl (Error ''boom''))"
  let ?odd = "FunctionElement ''Containers'' (Inl (NonError JNull))"
  note t = render_failure_context[where h = example_host and cs = "[''Deployment'']"
      and name = "''Containers''" and ?cs0.0 = "[]"]
  have ets: "renderToObject example_host ?ts [] = Inr ?rts"
    by (simp add: example_host_def renderPrimitive_def isNaN_def try_catch_def)
  have ez: "renderToObject example_host ?z [] = Inr ?rz"
    by (simp add: example_host_def renderPrimitive_def isNaN_def try_catch_def)
  have all: "list_all2 (\<lambda>child v. renderToObject example_host child [] = Inr v) [?ts, ?z] [?rts, ?rz]"
    using ets ez by simp
  have m: "foldl ?f (Inr (JObj [])) [?rts, ?rz] = Inl (Error (conflict_message ''toString''))"
    by code_simp
  have a: "renderToObject example_host
       (FunctionElement ''Containers'' (Inl (OriginError ''boom'' [''inner'']))) [''Deployment'']
     = Inl (OriginError ''boom'' [''inner''])"
    using t[where e = "OriginError ''boom'' [''inner'']" and m = "''boom''" and p = "[''inner'']"]
    by simp
  have sub: "renderToObject example_host
       (FunctionElement ''Containers'' (Inl (OriginError ''boom'' [''inner''])))
       ([''Deployment''] @ [''spec'']) = Inl (OriginError ''boom'' [''inner''])"
    by (simp add: try_catch_def)
  have b: "renderToObject example_host
       (StringElement ''spec'' [FunctionElement ''Containers'' (Inl (OriginError ''boom'' [''inner'']))])
       [''Deployment''] = Inl (OriginError ''boom'' [''inner''])"
    using t[where e = "OriginError ''boom'' [''inner'']" and m = "''boom''" and p = "[''inner'']"
        and tag = "''spec''"
        and child = "FunctionElement ''Containers'' (Inl (OriginError ''boom'' [''inner'']))"] sub
    by simp
  have c: "renderToObject example_host (StringElement ''spec'' [?boom]) [''Deployment'']
     = Inl (OriginError ''boom'' [''Deployment'', ''spec'', ''Containers''])"
    using t[where m = "''boom''" and tags = "[''spec'']"] by simp
  have d: "renderToObject example_host (StringElement ''y'' [?ts, ?z]) [''Deployment'']
     = Inl (OriginError (conflict_message ''toString'') [''Deployment'', ''y''])"
    using t[where children = "[?ts, ?z]" and results = "[?rts, ?rz]" and tag = "''y''"
        and e = "Error (conflict_message ''toString'')" and m = "conflict_message ''toString''"
        and stack = "[''Deployment'', ''y'']"] all m
    by simp
  have e: "renderToObject example_host (SymbolElement FragmentSymbol [?ts, ?z]) [''Deployment'']
     = Inl (OriginError (conflict_message ''toString'') [''Deployment''])"
    using t[where children = "[?ts, ?z]" and results = "[?rts, ?rz]"
        and e = "Error (conflict_message ''toString'')" and m = "conflict_message ''toString''"
        and stack = "[''Deployment'']"] all m
    by simp
  have f: "renderToObject example_host (OtherElement ''o'' [?ts, ?z]) [''Deployment'']
     = Inl (OriginError (conflict_message ''toString'') [''Deployment'', ''unknown''])"
    using t[where children = "[?ts, ?z]" and results = "[?rts, ?rz]" and type = "''o''"
        and e = "Error (conflict_message ''toString'')" and m = "conflict_message ''toString''"
        and stack = "[''Deployment'', ''unknown'']"] all m
    by simp
  have rej: "Promise_all example_host
      (map (\<lambda>child. renderToObject example_host child ([''Deployment''] @ [''y''])) [?boom, ?z])
      = Inl (OriginError ''boom'' [''Deployment'', ''y'', ''Containers''])"
    by (simp add: Promise_all_def example_host_def renderPrimitive_def isNaN_def try_catch_def)
  have g: "renderToObject example_host (StringElement ''y'' [?boom, ?z]) [''Deployment'']
     = Inl (OriginError ''boom'' [''Deployment'', ''y'', ''Containers''])"
    using t[where children = "[?boom, ?z]" and tag = "''y''"
        and e = "OriginError ''boom'' [''Deployment'', ''y'', ''Containers'']"
        and m = "''boom''" and p = "[''Deployment'', ''y'', ''Containers'']"] rej
    by simp
  have rej2: "Promise_all example_host
      (map (\<lambda>child. renderToObject example_host child [''Deployment'']) [?odd])
      = Inl (Error ''Unknown error'')"
    by (simp add: Promise_all_def example_host_def try_catch_def)
  have i: "renderToObject example_host (SymbolElement ListSymbol [?odd]) [''Deployment'']
     = Inl (OriginError ''Unknown error'' [''Deployment''])"
    using t[where children = "[?odd]" and symb = ListSymbol and e = "Error ''Unknown error''"
        and m = "''Unknown error''" and stack = "[''Deployment'']"] rej2
    by simp
  have j: "renderToObject example_host (SymbolElement (OtherSymbol ''x'') []) [''Deployment'']
     = Inl (OriginError ''Tried to render symbol Symbol(x) as a component'' [''Deployment''])"
    using t[where symb = "OtherSymbol ''x''" and children = "[]"] by (simp add: symbol_String_def)
  have k: "renderToObject example_host ?odd [''Deployment''] = Inl (Error ''Unknown error'')"
    using t[where e = "NonError JNull" and x = JNull] by simp
  have l: "renderToObject example_host (StringElement ''spec'' [?odd]) [''Deployment'']
     = Inl (OriginError ''Unknown error'' [''Deployment'', ''spec''])"
    using t[where x = JNull and tag = "''spec''"] by simp
  have n: "OriginError_toString ''boom'' [''Deployment'', ''spec'', ''Containers'', ''unknown'']
     = ''Deployment > spec > Containers > unknown'' @ [CHR 0x0A] @ ''  boom''"
    using t[where m = "''boom''" and path = "[''Deployment'', ''spec'', ''Containers'']"
        and q = "''unknown''"] by simp
  from a b c d e f g i j k l n show ?thesis by blast
qed

text \<open>
  C1, evaluated on the code: a non-empty string that converts to a number renders to
  that number, \<open>"true"\<close> and \<open>"false"\<close> to the booleans, any other string and a number
  to themselves. A boolean leaf does not pass through: \<open>Number(true)\<close> is \<open>1\<close> and
  \<open>Number(false)\<close> is \<open>0\<close>, neither is \<open>NaN\<close>, so the numeric branch returns the
  number.
\<close>
theorem render_scalar_leaf:
  "(s \<noteq> [] \<and> stringToNumber h s \<noteq> NaN \<longrightarrow>
      renderToObject h (Primitive (PString s)) cs = Inr (JNum (stringToNumber h s))) \<and>
   (stringToNumber h ''true'' = NaN \<longrightarrow>
      renderToObject h (Primitive (PString ''true'')) cs = Inr (JBool True)) \<and>
   (stringToNumber h ''false'' = NaN \<longrightarrow>
      renderToObject h (Primitive (PString ''false'')) cs = Inr (JBool False)) \<and>
   (s = [] \<or> stringToNumber h s = NaN \<and> s \<noteq> ''true'' \<and> s \<noteq> ''false'' \<longrightarrow>
      renderToObject h (Primitive (PString s)) cs = Inr (JStr s)) \<and>
   renderToObject h (Primitive (PNumber n)) cs = Inr (JNum n) \<and>
   renderToObject h (Primitive (PBoolean b)) cs = Inr (JNum (if b then Finite 1 else Finite 0))"
  by (auto simp: renderPrimitive_def isNaN_def)

theorem render_scalar_leaf_witness:
  "renderToObject example_host (Primitive (PString ''5'')) [] = Inr (JNum (Finite 5)) \<and>
   renderToObject example_host (Primitive (PString ''true'')) [] = Inr (JBool True) \<and>
   renderToObject example_host (Primitive (PString ''false'')) [] = Inr (JBool False) \<and>
   renderToObject example_host (Primitive (PString ''hello'')) [] = Inr (JStr ''hello'') \<and>
   renderToObject example_host (Primitive (PString [])) [] = Inr (JStr []) \<and>
   renderToObject example_host (Primitive (PNumber (Finite 7))) [] = Inr (JNum (Finite 7)) \<and>
   renderToObject example_host (Primitive (PBoolean True)) [] = Inr (JNum (Finite 1)) \<and>
   renderToObject example_host (Primitive (PBoolean True)) [] \<noteq> Inr (JBool True)"
proof -
  note t = render_scalar_leaf[where h = example_host and cs = "[]"]
  have n5: "stringToNumber example_host ''5'' = Finite 5"
    and nt: "stringToNumber example_host ''true'' = NaN"
    and nf: "stringToNumber example_host ''false'' = NaN"
    and nh: "stringToNumber example_host ''hello'' = NaN"
    by (simp_all add: example_host_def)
  have a: "renderToObject example_host (Primitive (PString ''5'')) [] = Inr (JNum (Finite 5))"
    using t[where s = "''5''"] n5 by simp
  have b: "renderToObject example_host (Primitive (PString ''true'')) [] = Inr (JBool True)"
    using t nt by blast
  have c: "renderToObject example_host (Primitive (PString ''false'')) [] = Inr (JBool False)"
    using t nf by blast
  have d: "renderToObject example_host (Primitive (PString ''hello'')) [] = Inr (JStr ''hello'')"
    using t[where s = "''hello''"] nh by simp
  have e: "renderToObject example_host (Primitive (PString [])) [] = Inr (JStr [])"
    using t[where s = "[]"] by simp
  have f: "renderToObject example_host (Primitive (PNumber (Finite 7))) [] = Inr (JNum (Finite 7))"
    using t[where n = "Finite 7"] by blast
  have g: "renderToObject example_host (Primitive (PBoolean True)) [] = Inr (JNum (Finite 1))"
    using t[where b = True] by simp
  from a b c d e f g show ?thesis by simp
qed

section \<open>The batch driver\<close>

text \<open>
  The exports of the module are its names with their values, each a node with its
  identity or a wrapper. \<open>renderFile\<close> orders them by the position of their node in the
  resolved order, starts a render for each and collects all outcomes
  (\<open>Promise.allSettled\<close>). A wrapper handed to the renderer has no \<open>type\<close> field.

  The promises are collected in the object \<open>acc\<close>, which starts as \<open>{}\<close>, by
  \<open>acc[key] = renderToObject(node)\<close>. For the key \<open>__proto__\<close> this assignment runs the
  setter that \<open>acc\<close> inherits: the promise, an object, becomes the prototype of \<open>acc\<close>
  and no property is added. Every other key becomes an own property, and \<open>Object.keys\<close>
  and \<open>Object.values\<close> list the own properties in property order.
\<close>

fun content :: "(nat \<times> vnode) decl \<Rightarrow> vnode" where
  "content (VNode (ref, vnode)) = vnode"
| "content (DependantNodeTree r deps node) = NoType"

record rendered =
  fulfilled :: "(string \<times> (thrown + jsval)) list"
  failures :: "(string \<times> (thrown + jsval)) list"

definition renderFile :: "host \<Rightarrow> (string \<times> (nat \<times> vnode) decl) list \<Rightarrow> rendered" where
  "renderFile h exports =
     (let orderOfExecution = map underlying (unravelOrderOfDependencies (map snd exports));
          promisesMap =
            fold (\<lambda>(key, node) acc.
                    if key = ''__proto__'' then acc
                    else set_prop acc key (renderToObject h (content node) []))
              (sort_key (\<lambda>(key, node). indexOf orderOfExecution node)
                 (map (\<lambda>(key, value). (key, underlying value)) exports))
              [];
          keys = map fst promisesMap;
          promises = map snd promisesMap;
          results = map (\<lambda>index. (keys ! index, promises ! index)) [0..<length promises]
      in \<lparr> fulfilled = filter (\<lambda>(key, result). \<not> isl result) results,
           failures = filter (\<lambda>(key, result). isl result) results \<rparr>)"

subsection \<open>What the driver reports\<close>

lemma count_insert_index:
  "length (filter P (insert_index props k v)) = length (filter P props) + (if P (k, v) then 1 else 0)"
  by (induction props) auto

lemma count_set_prop_fresh:
  "\<not> has_own k props \<Longrightarrow>
   length (filter P (set_prop props k v)) = length (filter P props) + (if P (k, v) then 1 else 0)"
  by (simp add: set_prop_def count_insert_index)

lemma fold_promises:
  "distinct (map fst xs) \<Longrightarrow> \<forall>k\<in>set (map fst xs). \<not> has_own k acc \<Longrightarrow>
   set (fold (\<lambda>(key, node) acc. if key = ''__proto__'' then acc else set_prop acc key (f node)) xs acc)
     = set acc \<union> {(key, f node) |key node. (key, node) \<in> set xs \<and> key \<noteq> ''__proto__''} \<and>
   (\<forall>P. length (filter P
            (fold (\<lambda>(key, node) acc. if key = ''__proto__'' then acc else set_prop acc key (f node))
               xs acc))
     = length (filter P acc) +
       length (filter (\<lambda>(key, node). key \<noteq> ''__proto__'' \<and> P (key, f node)) xs))"
proof (induction xs arbitrary: acc)
  case Nil
  then show ?case by simp
next
  case (Cons x xs)
  obtain key node where x: "x = (key, node)" by (cases x)
  from Cons.prems x have d: "distinct (map fst xs)" and nk: "key \<notin> set (map fst xs)"
    and no: "\<not> has_own key acc" and rest: "\<forall>k\<in>set (map fst xs). \<not> has_own k acc"
    by auto
  show ?case
  proof (cases "key = ''__proto__''")
    case True
    with Cons.IH[OF d rest] x nk show ?thesis by (auto simp: image_iff)
  next
    case False
    let ?acc = "set_prop acc key (f node)"
    have fresh: "\<forall>k\<in>set (map fst xs). \<not> has_own k ?acc"
      using rest nk by (auto simp: has_own_set_prop)
    note ih = Cons.IH[OF d fresh]
    have s: "set ?acc = insert (key, f node) (set acc)" using no by (rule set_set_prop_fresh)
    have c: "\<And>P. length (filter P ?acc) = length (filter P acc) + (if P (key, f node) then 1 else 0)"
      using no by (rule count_set_prop_fresh)
    from ih s c False x show ?thesis by auto
  qed
qed

lemma distinct_keys_sort_key:
  assumes "distinct (map fst xs)"
  shows "distinct (map fst (sort_key g xs))"
proof -
  have "set (map fst (sort_key g xs)) = set (map fst xs)" by simp
  moreover have "length (map fst (sort_key g xs)) = length (map fst xs)" by simp
  moreover have "card (set (map fst xs)) = length (map fst xs)"
    using assms by (rule distinct_card)
  ultimately have "card (set (map fst (sort_key g xs))) = length (map fst (sort_key g xs))"
    by simp
  then show ?thesis by (rule card_distinct)
qed

lemma map_insort_key:
  "map E (insort_key (\<lambda>a. g (E a)) x ys) = insort_key g (E x) (map E ys)"
  by (induction ys) auto

lemma map_sort_key: "map E (sort_key (\<lambda>a. g (E a)) xs) = sort_key g (map E xs)"
  by (induction xs) (auto simp: map_insort_key)

lemma indexed_pairs: "map (\<lambda>i. (map fst ps ! i, map snd ps ! i)) [0..<length (map snd ps)] = ps"
  by (rule nth_equalityI) auto

lemma count_sort_key: "length (filter P (sort_key g xs)) = length (filter P xs)"
proof -
  have "filter P (sort_key g xs) = sort_key g (filter P xs)" by (rule filter_sort)
  then show ?thesis by simp
qed

lemma renderFile_results:
  assumes "distinct (map fst exports)"
  shows "\<exists>results.
           fulfilled (renderFile h exports) = filter (\<lambda>(key, result). \<not> isl result) results \<and>
           failures (renderFile h exports) = filter (\<lambda>(key, result). isl result) results \<and>
           set results =
             {(key, renderToObject h (content (underlying value)) []) |key value.
                (key, value) \<in> set exports \<and> key \<noteq> ''__proto__''} \<and>
           (\<forall>P. length (filter P results) =
                 length (filter (\<lambda>(key, value). key \<noteq> ''__proto__'' \<and>
                            P (key, renderToObject h (content (underlying value)) [])) exports))"
proof -
  let ?order = "map underlying (unravelOrderOfDependencies (map snd exports))"
  let ?g = "\<lambda>(key, node). indexOf ?order node"
  let ?E = "\<lambda>(key, value). (key, underlying value)"
  let ?g' = "\<lambda>(key, value). indexOf ?order (underlying value)"
  let ?sorted = "sort_key ?g' exports"
  let ?f = "\<lambda>node. renderToObject h (content node) []"
  let ?step = "\<lambda>(key, node) acc. if key = ''__proto__'' then acc else set_prop acc key (?f node)"
  let ?results = "fold ?step (map ?E ?sorted) []"
  have gE: "?g' = (\<lambda>a. ?g (?E a))" by (auto simp: fun_eq_iff)
  have comm: "sort_key ?g (map ?E exports) = map ?E ?sorted"
    unfolding gE by (rule map_sort_key[symmetric])
  have dist: "distinct (map fst (map ?E ?sorted))"
  proof -
    have k: "map fst (map ?E ?sorted) = map fst ?sorted"
      by (rule nth_equalityI) (auto simp: case_prod_beta)
    show ?thesis unfolding k by (rule distinct_keys_sort_key[OF assms])
  qed
  have "\<forall>k\<in>set (map fst (map ?E ?sorted)). \<not> has_own k []" by (simp add: has_own_def)
  from fold_promises[OF dist this, of ?f]
  have sr: "set ?results = {(key, ?f node) |key node. (key, node) \<in> set (map ?E ?sorted) \<and>
              key \<noteq> ''__proto__''}"
    and cr: "\<And>P. length (filter P ?results) =
              length (filter (\<lambda>(key, node). key \<noteq> ''__proto__'' \<and> P (key, ?f node)) (map ?E ?sorted))"
    by simp_all
  have s1: "set ?results =
      {(key, renderToObject h (content (underlying value)) []) |key value.
         (key, value) \<in> set exports \<and> key \<noteq> ''__proto__''}"
    unfolding sr by (auto simp: image_iff split: prod.splits) force
  have c1: "length (filter P ?results) =
      length (filter (\<lambda>(key, value). key \<noteq> ''__proto__'' \<and>
                 P (key, renderToObject h (content (underlying value)) [])) exports)" for P
  proof -
    have "length (filter P ?results) =
        length (filter ((\<lambda>(key, node). key \<noteq> ''__proto__'' \<and> P (key, ?f node)) \<circ> ?E) ?sorted)"
      unfolding cr filter_map by simp
    also have "(\<lambda>(key, node). key \<noteq> ''__proto__'' \<and> P (key, ?f node)) \<circ> ?E
        = (\<lambda>(key, value). key \<noteq> ''__proto__'' \<and>
             P (key, renderToObject h (content (underlying value)) []))"
      by (auto simp: fun_eq_iff)
    finally show ?thesis by (simp only: count_sort_key)
  qed
  have ful: "fulfilled (renderFile h exports) = filter (\<lambda>(key, result). \<not> isl result) ?results"
    unfolding renderFile_def Let_def comm indexed_pairs by simp
  have fai: "failures (renderFile h exports) = filter (\<lambda>(key, result). isl result) ?results"
    unfolding renderFile_def Let_def comm indexed_pairs by simp
  from ful fai s1 c1 show ?thesis by blast
qed

text \<open>
  C7, evaluated on the code. For exports with distinct names, \<open>renderFile\<close> reports
  every declaration whose name is not \<open>__proto__\<close> once, under its own name and with
  the outcome of rendering its own underlying node: the rejected ones in \<open>failures\<close>,
  the others in \<open>fulfilled\<close>. So when no export is named \<open>__proto__\<close> and exactly one
  of the \<open>N\<close> declarations throws, \<open>failures\<close> has one entry and \<open>fulfilled\<close> has
  \<open>N - 1\<close>. A declaration exported as \<open>__proto__\<close> is rendered but not reported: of the
  two exports \<open>__proto__\<close>, which renders, and \<open>b\<close>, whose component throws, only
  \<open>b\<close> is in the result.
\<close>
theorem renderFile_settles_all:
  assumes "distinct (map fst exports)"
  shows
    "(''__proto__'' \<notin> set (map fst exports) \<longrightarrow>
        length (failures (renderFile h exports)) =
          length (filter (\<lambda>(key, value). isl (renderToObject h (content (underlying value)) []))
                    exports) \<and>
        length (fulfilled (renderFile h exports)) =
          length (filter (\<lambda>(key, value). \<not> isl (renderToObject h (content (underlying value)) []))
                    exports) \<and>
        (length (filter (\<lambda>(key, value). isl (renderToObject h (content (underlying value)) []))
                   exports) = 1 \<longrightarrow>
           length (failures (renderFile h exports)) = 1 \<and>
           length (fulfilled (renderFile h exports)) = length exports - 1)) \<and>
     set (fulfilled (renderFile h exports)) =
       {(key, renderToObject h (content (underlying value)) []) |key value.
          (key, value) \<in> set exports \<and> key \<noteq> ''__proto__'' \<and>
          \<not> isl (renderToObject h (content (underlying value)) [])} \<and>
     set (failures (renderFile h exports)) =
       {(key, renderToObject h (content (underlying value)) []) |key value.
          (key, value) \<in> set exports \<and> key \<noteq> ''__proto__'' \<and>
          isl (renderToObject h (content (underlying value)) [])} \<and>
     renderFile h [(''__proto__'', VNode (0, StringElement ''x'' [])),
        (''b'', VNode (1, FunctionElement ''F'' (Inl (Error ''boom''))))]
       = \<lparr> fulfilled = [],
           failures = [(''b'', Inl (OriginError ''boom'' [''F'']))] \<rparr>"
proof -
  let ?R = "\<lambda>value. renderToObject h (content (underlying value)) []"
  let ?bad = "\<lambda>(key, value). isl (?R value)"
  let ?good = "\<lambda>(key, value). \<not> isl (?R value)"
  from renderFile_results[OF assms, of h] obtain results where
    ful: "fulfilled (renderFile h exports) = filter (\<lambda>(key, result). \<not> isl result) results" and
    fai: "failures (renderFile h exports) = filter (\<lambda>(key, result). isl result) results" and
    set: "set results = {(key, ?R value) |key value. (key, value) \<in> set exports \<and> key \<noteq> ''__proto__''}" and
    len: "\<And>P. length (filter P results) =
            length (filter (\<lambda>(key, value). key \<noteq> ''__proto__'' \<and> P (key, ?R value)) exports)"
    by blast
  have sful: "set (fulfilled (renderFile h exports)) =
       {(key, ?R value) |key value.
          (key, value) \<in> set exports \<and> key \<noteq> ''__proto__'' \<and> \<not> isl (?R value)}"
    unfolding ful using set by auto
  have sfai: "set (failures (renderFile h exports)) =
       {(key, ?R value) |key value.
          (key, value) \<in> set exports \<and> key \<noteq> ''__proto__'' \<and> isl (?R value)}"
    unfolding fai using set by auto
  have counts: "length (failures (renderFile h exports)) = length (filter ?bad exports) \<and>
        length (fulfilled (renderFile h exports)) = length (filter ?good exports) \<and>
        (length (filter ?bad exports) = 1 \<longrightarrow>
           length (failures (renderFile h exports)) = 1 \<and>
           length (fulfilled (renderFile h exports)) = length exports - 1)"
    if np: "''__proto__'' \<notin> set (map fst exports)"
  proof -
    have nbad: "length (failures (renderFile h exports)) = length (filter ?bad exports)"
      unfolding fai len using np by (intro arg_cong[where f = length] filter_cong) force+
    have ngood: "length (fulfilled (renderFile h exports)) = length (filter ?good exports)"
      unfolding ful len using np by (intro arg_cong[where f = length] filter_cong) force+
    have total: "length (filter ?bad exports) + length (filter ?good exports) = length exports"
    proof -
      have c: "(\<lambda>x. \<not> ?bad x) = ?good" by (auto simp: fun_eq_iff)
      show ?thesis using sum_length_filter_compl[of ?bad exports] unfolding c .
    qed
    from nbad ngood total show ?thesis by arith
  qed
  have ex: "renderFile h [(''__proto__'', VNode (0, StringElement ''x'' [])),
        (''b'', VNode (1, FunctionElement ''F'' (Inl (Error ''boom''))))]
       = \<lparr> fulfilled = [],
           failures = [(''b'', Inl (OriginError ''boom'' [''F'']))] \<rparr>"
    by (simp add: renderFile_def unravel_first_reached underlying_def try_catch_def
          set_prop_def has_own_def is_index_def is_digit_def)
  from counts sful sfai ex show ?thesis by blast
qed

theorem renderFile_settles_all_witness:
  "distinct (map fst
     [(''a'', VNode (0, StringElement ''x'' [Primitive (PString ''hello'')])),
      (''b'', DependantNodeTree 0 [] (VNode (1, NoType))),
      (''c'', VNode (2, StringElement ''y'' [Primitive (PString ''5'')]))]) \<and>
   ''__proto__'' \<notin> set (map fst
     [(''a'', VNode (0, StringElement ''x'' [Primitive (PString ''hello'')])),
      (''b'', DependantNodeTree 0 [] (VNode (1, NoType))),
      (''c'', VNode (2, StringElement ''y'' [Primitive (PString ''5'')]))]) \<and>
   renderFile example_host
     [(''a'', VNode (0, StringElement ''x'' [Primitive (PString ''hello'')])),
      (''b'', DependantNodeTree 0 [] (VNode (1, NoType))),
      (''c'', VNode (2, StringElement ''y'' [Primitive (PString ''5'')]))]
   = \<lparr> fulfilled = [(''a'', Inr (JObj [(''x'', JStr ''hello'')])),
                     (''c'', Inr (JObj [(''y'', JNum (Finite 5))]))],
       failures = [(''b'', Inl (OriginError ''Object is not a valid VNode'' []))] \<rparr> \<and>
   length (failures (renderFile example_host
     [(''a'', VNode (0, StringElement ''x'' [Primitive (PString ''hello'')])),
      (''b'', DependantNodeTree 0 [] (VNode (1, NoType))),
      (''c'', VNode (2, StringElement ''y'' [Primitive (PString ''5'')]))])) = 1 \<and>
   length (fulfilled (renderFile example_host
     [(''a'', VNode (0, StringElement ''x'' [Primitive (PString ''hello'')])),
      (''b'', DependantNodeTree 0 [] (VNode (1, NoType))),
      (''c'', VNode (2, StringElement ''y'' [Primitive (PString ''5'')]))])) = 3 - 1 \<and>
   renderFile example_host
     [(''__proto__'', VNode (0, StringElement ''x'' [])),
        (''b'', VNode (1, FunctionElement ''F'' (Inl (Error ''boom''))))]
   = \<lparr> fulfilled = [],
       failures = [(''b'', Inl (OriginError ''boom'' [''F'']))] \<rparr>"
proof -
  let ?exports = "[(''a'', VNode (0::nat, StringElement ''x'' [Primitive (PString ''hello'')])),
      (''b'', DependantNodeTree 0 [] (VNode (1, NoType))),
      (''c'', VNode (2, StringElement ''y'' [Primitive (PString ''5'')]))]"
  have d: "distinct (map fst ?exports)" by simp
  have np: "''__proto__'' \<notin> set (map fst ?exports)" by simp
  have one: "length (filter (\<lambda>(key, value).
      isl (renderToObject example_host (content (underlying value)) [])) ?exports) = 1"
    by (simp add: underlying_def try_catch_def example_host_def renderPrimitive_def isNaN_def)
  have ev: "renderFile example_host ?exports
     = \<lparr> fulfilled = [(''a'', Inr (JObj [(''x'', JStr ''hello'')])),
                     (''c'', Inr (JObj [(''y'', JNum (Finite 5))]))],
       failures = [(''b'', Inl (OriginError ''Object is not a valid VNode'' []))] \<rparr>"
    by code_simp
  from renderFile_settles_all[OF d, of example_host] np one
  have "length (failures (renderFile example_host ?exports)) = 1 \<and>
        length (fulfilled (renderFile example_host ?exports)) = length ?exports - 1"
    by blast
  moreover from renderFile_settles_all[OF d, of example_host]
  have "renderFile example_host
     [(''__proto__'', VNode (0, StringElement ''x'' [])),
        (''b'', VNode (1, FunctionElement ''F'' (Inl (Error ''boom''))))]
   = \<lparr> fulfilled = [],
       failures = [(''b'', Inl (OriginError ''boom'' [''F'']))] \<rparr>"
    by blast
  ultimately show ?thesis using d np ev by simp
qed

section \<open>Deep merge on a store\<close>

text \<open>
  Whether \<open>deepMerge\<close> mutates its inputs is a question about shared objects, so here
  the same function runs on an explicit store: a value is a primitive, a reference, a
  builtin method or \<open>Object.prototype\<close>; a cell is an object, with its own properties
  and its prototype, or an array; and an allocation appends a cell. \<open>Obj props\<close> is an
  object whose prototype is \<open>Object.prototype\<close>. \<open>output\<close> is a fresh object that the
  loop writes to; \<open>output[key] = source[key]\<close> stores the reference itself, so the
  result may share cells with \<open>source\<close>. Objects in a store may be cyclic; the first
  argument bounds the depth of the recursion, and \<open>None\<close> says that the bound was
  reached.
\<close>

datatype hval =
    HNull | HUndefined | HBool bool | HNum jsnum | HStr string | HRef nat
  | HFunction | HObjectPrototype

datatype cell = Object "(string \<times> hval) list" hval | Arr "hval list"

abbreviation Obj :: "(string \<times> hval) list \<Rightarrow> cell" where
  "Obj props \<equiv> Object props HObjectPrototype"

type_synonym store = "cell list"

definition cell_at :: "store \<Rightarrow> hval \<Rightarrow> cell option" where
  "cell_at h v = (case v of HRef a \<Rightarrow> (if a < length h then Some (h ! a) else None) | _ \<Rightarrow> None)"

definition isObject_at :: "store \<Rightarrow> hval \<Rightarrow> bool" where
  "isObject_at h v =
     (v = HObjectPrototype \<or> (case cell_at h v of Some (Object props proto) \<Rightarrow> True | _ \<Rightarrow> False))"

definition isArray_at :: "store \<Rightarrow> hval \<Rightarrow> bool" where
  "isArray_at h v = (case cell_at h v of Some (Arr xs) \<Rightarrow> True | _ \<Rightarrow> False)"

definition properties_at :: "store \<Rightarrow> hval \<Rightarrow> (string \<times> hval) list" where
  "properties_at h v = (case cell_at h v of Some (Object props proto) \<Rightarrow> props | _ \<Rightarrow> [])"

definition elements_at :: "store \<Rightarrow> hval \<Rightarrow> hval list" where
  "elements_at h v = (case cell_at h v of Some (Arr xs) \<Rightarrow> xs | _ \<Rightarrow> [])"

definition spread_at :: "store \<Rightarrow> hval \<Rightarrow> (string \<times> hval) list" where
  "spread_at h v =
     (case v of
        HStr s \<Rightarrow> indexed (map (\<lambda>c. HStr [c]) s)
      | _ \<Rightarrow>
          (case cell_at h v of
             Some (Object props proto) \<Rightarrow> props
           | Some (Arr xs) \<Rightarrow> indexed xs
           | None \<Rightarrow> []))"

text \<open>
  The property \<open>k\<close> of a value, own or found along the prototype chain. A prototype
  chain has no cycle, so it has no more objects than the store has cells; the walk is
  bounded by that.
\<close>

datatype hslot = HData hval | HAccessor

definition Object_prototype_hslot :: "string \<Rightarrow> hslot option" where
  "Object_prototype_hslot k =
     (if k = ''__proto__'' then Some HAccessor
      else if k \<in> set Object_prototype_names then Some (HData HFunction)
      else None)"

fun lookup_at :: "nat \<Rightarrow> store \<Rightarrow> hval \<Rightarrow> string \<Rightarrow> hslot option" where
  "lookup_at 0 h v k = None"
| "lookup_at (Suc n) h v k =
     (case v of
        HObjectPrototype \<Rightarrow> Object_prototype_hslot k
      | HRef a \<Rightarrow>
          (case cell_at h v of
             Some (Object props proto) \<Rightarrow>
               (case map_of props k of
                  Some x \<Rightarrow> Some (HData x)
                | None \<Rightarrow> lookup_at n h proto k)
           | Some (Arr xs) \<Rightarrow>
               (if is_index k \<and> nat (number_of k) < length xs
                  then Some (HData (xs ! nat (number_of k)))
                else if k = ''length'' then Some (HData (HNum (Finite (of_nat (length xs)))))
                else if k \<in> set Array_prototype_names then Some (HData HFunction)
                else Object_prototype_hslot k)
           | None \<Rightarrow> None)
      | _ \<Rightarrow> None)"

definition lookup_in :: "store \<Rightarrow> hval \<Rightarrow> string \<Rightarrow> hslot option" where
  "lookup_in h v k = lookup_at (Suc (length h)) h v k"

definition has_property_at :: "store \<Rightarrow> hval \<Rightarrow> string \<Rightarrow> bool" where
  "has_property_at h v k = (lookup_in h v k \<noteq> None)"

definition prototype_at :: "store \<Rightarrow> hval \<Rightarrow> hval" where
  "prototype_at h v = (case cell_at h v of Some (Object props proto) \<Rightarrow> proto | _ \<Rightarrow> HNull)"

definition read_prop :: "store \<Rightarrow> hval \<Rightarrow> string \<Rightarrow> hval" where
  "read_prop h v k =
     (case lookup_in h v k of
        None \<Rightarrow> HUndefined
      | Some (HData x) \<Rightarrow> x
      | Some HAccessor \<Rightarrow> prototype_at h v)"

text \<open>\<open>object[k] = v\<close> for the object in the cell \<open>a\<close>, as \<open>assign\<close> has it.\<close>

fun is_Object_ref :: "hval \<Rightarrow> bool" where
  "is_Object_ref (HRef a) = True"
| "is_Object_ref HFunction = True"
| "is_Object_ref HObjectPrototype = True"
| "is_Object_ref v = False"

definition write_prop :: "store \<Rightarrow> nat \<Rightarrow> string \<Rightarrow> hval \<Rightarrow> store" where
  "write_prop h a k v =
     (case cell_at h (HRef a) of
        Some (Object props proto) \<Rightarrow>
          (if has_own k props then h[a := Object (set_prop props k v) proto]
           else if lookup_in h proto k = Some HAccessor then
             h[a := Object props (if is_Object_ref v \<or> v = HNull then v else proto)]
           else h[a := Object (set_prop props k v) proto])
      | _ \<Rightarrow> h)"

function deepMerge_store ::
    "nat \<Rightarrow> store \<Rightarrow> hval \<Rightarrow> hval \<Rightarrow> ((thrown + hval) \<times> store) option"
  and forEach_key_store ::
    "nat \<Rightarrow> string list \<Rightarrow> hval \<Rightarrow> hval \<Rightarrow> nat \<Rightarrow> store \<Rightarrow> ((thrown + unit) \<times> store) option"
where
  "deepMerge_store 0 h target source = None"
| "deepMerge_store (Suc n) h target source =
     (let out = length h;
          h1 = h @ [Obj (spread_at h target)]
      in if isObject_at h1 target \<and> isObject_at h1 source then
           (case forEach_key_store n (map fst (properties_at h1 source)) target source out h1 of
              None \<Rightarrow> None
            | Some (Inl e, h2) \<Rightarrow> Some (Inl e, h2)
            | Some (Inr u, h2) \<Rightarrow> Some (Inr (HRef out), h2))
         else Some (Inr (HRef out), h1))"
| "forEach_key_store n [] target source out h = Some (Inr (), h)"
| "forEach_key_store n (key # keys) target source out h =
     (if isObject_at h (read_prop h source key) then
        (if \<not> has_property_at h target key then
           forEach_key_store n keys target source out
             (write_prop h out key (read_prop h source key))
         else
           (case deepMerge_store n h (read_prop h target key) (read_prop h source key) of
              None \<Rightarrow> None
            | Some (Inl e, h') \<Rightarrow> Some (Inl e, h')
            | Some (Inr merged, h') \<Rightarrow>
                forEach_key_store n keys target source out (write_prop h' out key merged)))
      else if isArray_at h (read_prop h source key) then
        forEach_key_store n keys target source out
          (write_prop
             (h @ [Arr (if isArray_at h (read_prop h target key)
                        then elements_at h (read_prop h target key) @
                             elements_at h (read_prop h source key)
                        else elements_at h (read_prop h source key))])
             out key (HRef (length h)))
      else if has_property_at h (HRef out) key then
        Some (Inl (Error (conflict_message key)), h)
      else
        forEach_key_store n keys target source out
          (write_prop h out key (read_prop h source key)))"
  by pat_completeness auto
termination
  by (relation "inv_image (less_than <*lex*> less_than)
        (\<lambda>x. case x of
           Inl (n, h, t, s) \<Rightarrow> (2 * n, 0)
         | Inr (n, keys, t, s, out, h) \<Rightarrow> (2 * n + 1, length keys))")
     auto

text \<open>
  The plain value a store value stands for, read to a bounded depth; \<open>None\<close> for a
  reference outside the store or a value deeper than the bound.
\<close>

fun reify :: "nat \<Rightarrow> store \<Rightarrow> hval \<Rightarrow> jsval option" where
  "reify 0 h v = None"
| "reify (Suc k) h v =
     (case v of
        HNull \<Rightarrow> Some JNull
      | HUndefined \<Rightarrow> Some JUndefined
      | HBool b \<Rightarrow> Some (JBool b)
      | HNum n \<Rightarrow> Some (JNum n)
      | HStr s \<Rightarrow> Some (JStr s)
      | HFunction \<Rightarrow> Some JFunction
      | HObjectPrototype \<Rightarrow> Some JObjectPrototype
      | HRef a \<Rightarrow>
          (case cell_at h v of
             None \<Rightarrow> None
           | Some (Object props proto) \<Rightarrow>
               (case reify k h proto of
                  None \<Rightarrow> None
                | Some pj \<Rightarrow>
                    map_option (\<lambda>ps. JObject ps pj)
                      (those (map (\<lambda>(key, x). map_option (Pair key) (reify k h x)) props)))
           | Some (Arr xs) \<Rightarrow> map_option JArr (those (map (reify k h) xs))))"

subsection \<open>The cells of the inputs are not written to\<close>

text \<open>
  A store \<open>h'\<close> extends \<open>h\<close> when \<open>take (length h) h' = h\<close>: the cells of \<open>h\<close> are
  there, unchanged.
\<close>

lemma extends_length: "take (length h0) h = h0 \<Longrightarrow> length h0 \<le> length h"
proof -
  assume "take (length h0) h = h0"
  then have "length (take (length h0) h) = length h0" by simp
  then show ?thesis by simp
qed

lemma extends_nth: "take (length h0) h = h0 \<Longrightarrow> a < length h0 \<Longrightarrow> h ! a = h0 ! a"
proof -
  assume a: "take (length h0) h = h0" "a < length h0"
  then have "take (length h0) h ! a = h ! a" by (intro nth_take)
  with a show ?thesis by simp
qed

lemma extends_trans:
  "take (length h0) h = h0 \<Longrightarrow> take (length h) h' = h \<Longrightarrow> take (length h0) h' = h0"
proof -
  assume a: "take (length h0) h = h0" "take (length h) h' = h"
  then have "length h0 \<le> length h" by (intro extends_length)
  then have "take (length h0) (take (length h) h') = take (length h0) h'"
    by (simp add: min_def)
  with a show ?thesis by simp
qed

lemma extends_append: "take (length h0) h = h0 \<Longrightarrow> take (length h0) (h @ [c]) = h0"
  using extends_length[of h0 h] by simp

lemma extends_write:
  "take (length h0) h = h0 \<Longrightarrow> length h0 \<le> out \<Longrightarrow>
   take (length h0) (write_prop h out k v) = h0"
  by (simp add: write_prop_def split: option.splits cell.splits)

lemma store_frame:
  "deepMerge_store n h target source = Some (r, h') \<Longrightarrow> take (length h) h' = h"
  "forEach_key_store n keys target source out h = Some (r', h') \<Longrightarrow>
     length h0 \<le> out \<Longrightarrow> take (length h0) h = h0 \<Longrightarrow> take (length h0) h' = h0"
proof (induction n h target source and n keys target source out h
    arbitrary: r h' and r' h' h0 rule: deepMerge_store_forEach_key_store.induct)
  case (1 h target source)
  then show ?case by simp
next
  case (2 n h target source)
  let ?h1 = "h @ [Obj (spread_at h target)]"
  show ?case
  proof (cases "isObject_at ?h1 target \<and> isObject_at ?h1 source")
    case True
    with "2.prems" obtain x where
      loop: "forEach_key_store n (map fst (properties_at ?h1 source)) target source (length h) ?h1
               = Some (x, h')"
      by (auto simp: Let_def split: option.splits sum.splits prod.splits)
    show ?thesis
      by (rule "2.IH"[OF refl refl True loop]) simp_all
  next
    case False
    with "2.prems" have "h' = ?h1" by (auto simp: Let_def)
    then show ?thesis by simp
  qed
next
  case (3 n target source out h)
  then show ?case by simp
next
  case (4 n key keys target source out h)
  let ?sv = "read_prop h source key"
  let ?tv = "read_prop h target key"
  note ext = "4.prems"(3) and out = "4.prems"(2)
  show ?case
  proof (cases "isObject_at h ?sv")
    case obj: True
    show ?thesis
    proof (cases "has_property_at h target key")
      case False
      with obj "4.prems"(1)
      have loop: "forEach_key_store n keys target source out (write_prop h out key ?sv)
                    = Some (r', h')" by simp
      show ?thesis
        by (rule "4.IH"(1)[OF obj False loop out]) (rule extends_write[OF ext out])
    next
      case True
      then have nn: "\<not> \<not> has_property_at h target key" by simp
      from obj True "4.prems"(1) obtain res h'' where
        call: "deepMerge_store n h ?tv ?sv = Some (res, h'')"
        by (cases "deepMerge_store n h ?tv ?sv") auto
      have "take (length h) h'' = h" by (rule "4.IH"(2)[OF obj nn call])
      with ext have ext'': "take (length h0) h'' = h0" by (rule extends_trans)
      show ?thesis
      proof (cases res)
        case (Inl e)
        with obj True call "4.prems"(1) have "h' = h''" by simp
        with ext'' show ?thesis by simp
      next
        case (Inr merged)
        with obj True call "4.prems"(1)
        have loop: "forEach_key_store n keys target source out (write_prop h'' out key merged)
                      = Some (r', h')" by simp
        show ?thesis
          by (rule "4.IH"(3)[OF obj nn call refl Inr loop out]) (rule extends_write[OF ext'' out])
      qed
    qed
  next
    case nobj: False
    show ?thesis
    proof (cases "isArray_at h ?sv")
      case arr: True
      let ?cell = "Arr (if isArray_at h ?tv then elements_at h ?tv @ elements_at h ?sv
                        else elements_at h ?sv)"
      from nobj arr "4.prems"(1)
      have loop: "forEach_key_store n keys target source out
                    (write_prop (h @ [?cell]) out key (HRef (length h))) = Some (r', h')"
        by simp
      have "take (length h0) (h @ [?cell]) = h0" using ext by (rule extends_append)
      then have "take (length h0) (write_prop (h @ [?cell]) out key (HRef (length h))) = h0"
        using out by (rule extends_write)
      with "4.IH"(4)[OF nobj arr loop out] show ?thesis .
    next
      case narr: False
      show ?thesis
      proof (cases "has_property_at h (HRef out) key")
        case True
        with nobj narr "4.prems"(1) have "h' = h" by simp
        with ext show ?thesis by simp
      next
        case False
        with nobj narr "4.prems"(1)
        have loop: "forEach_key_store n keys target source out (write_prop h out key ?sv)
                      = Some (r', h')" by simp
        show ?thesis
          by (rule "4.IH"(5)[OF nobj narr False loop out]) (rule extends_write[OF ext out])
      qed
    qed
  qed
qed

lemma those_map_cong:
  "those (map f xs) = Some ys \<Longrightarrow> (\<And>x y. x \<in> set xs \<Longrightarrow> f x = Some y \<Longrightarrow> g x = Some y) \<Longrightarrow>
   those (map g xs) = Some ys"
proof (induction xs arbitrary: ys)
  case Nil
  then show ?case by simp
next
  case (Cons x xs)
  from Cons.prems(1) obtain y ys' where fx: "f x = Some y" and rest: "those (map f xs) = Some ys'"
    and ys: "ys = y # ys'"
    by (auto split: option.splits)
  have gx: "g x = Some y" using Cons.prems(2)[of x y] fx by simp
  have "those (map g xs) = Some ys'"
  proof (rule Cons.IH[OF rest])
    fix x' y' assume "x' \<in> set xs" "f x' = Some y'"
    then show "g x' = Some y'" using Cons.prems(2)[of x' y'] by simp
  qed
  with gx ys show ?case by simp
qed

lemma cell_at_extends:
  "take (length h) h' = h \<Longrightarrow> cell_at h v = Some c \<Longrightarrow> cell_at h' v = Some c"
proof -
  assume ext: "take (length h) h' = h" and c: "cell_at h v = Some c"
  from c obtain a where v: "v = HRef a" and a: "a < length h" and ca: "c = h ! a"
    by (cases v) (auto simp: cell_at_def split: if_splits)
  from ext have "length h \<le> length h'" by (rule extends_length)
  moreover from ext a have "h' ! a = h ! a" by (rule extends_nth)
  ultimately show ?thesis using v a ca by (simp add: cell_at_def)
qed

lemma reify_ref:
  "reify (Suc k) h (HRef a) =
     (case cell_at h (HRef a) of
        None \<Rightarrow> None
      | Some (Object props proto) \<Rightarrow>
          (case reify k h proto of
             None \<Rightarrow> None
           | Some pj \<Rightarrow>
               map_option (\<lambda>ps. JObject ps pj)
                 (those (map (\<lambda>(key, x). map_option (Pair key) (reify k h x)) props)))
      | Some (Arr xs) \<Rightarrow> map_option JArr (those (map (reify k h) xs)))"
  by (simp only: reify.simps hval.case)

lemma reify_primitive:
  "reify (Suc k) h HNull = Some JNull"
  "reify (Suc k) h HUndefined = Some JUndefined"
  "reify (Suc k) h (HBool b) = Some (JBool b)"
  "reify (Suc k) h (HNum n) = Some (JNum n)"
  "reify (Suc k) h (HStr s) = Some (JStr s)"
  "reify (Suc k) h HFunction = Some JFunction"
  "reify (Suc k) h HObjectPrototype = Some JObjectPrototype"
  by (simp_all only: reify.simps hval.case)

declare reify.simps(2) [simp del]

lemma reify_extends:
  "reify k h v = Some j \<Longrightarrow> take (length h) h' = h \<Longrightarrow> reify k h' v = Some j"
proof (induction k arbitrary: v j)
  case 0
  then show ?case by simp
next
  case (Suc k)
  show ?case
  proof (cases v)
    case (HRef a)
    have "cell_at h v \<noteq> None"
    proof
      assume "cell_at h v = None"
      with Suc.prems(1) HRef show False by (simp add: reify_ref)
    qed
    then obtain c where c: "cell_at h v = Some c" by blast
    from Suc.prems(2) c have c': "cell_at h' v = Some c" by (rule cell_at_extends)
    show ?thesis
    proof (cases c)
      case (Object props proto)
      with Suc.prems(1) HRef c obtain pj js where
        pj: "reify k h proto = Some pj" and
        js: "those (map (\<lambda>(key, x). map_option (Pair key) (reify k h x)) props) = Some js"
        and j: "j = JObject js pj" by (auto simp: reify_ref split: option.splits)
      have pj': "reify k h' proto = Some pj" using pj Suc.prems(2) by (rule Suc.IH)
      have "those (map (\<lambda>(key, x). map_option (Pair key) (reify k h' x)) props) = Some js"
      proof (rule those_map_cong[OF js])
        fix e y assume "e \<in> set props"
          and f: "(case e of (key, x) \<Rightarrow> map_option (Pair key) (reify k h x)) = Some y"
        obtain key x where e: "e = (key, x)" by (cases e)
        with f obtain j' where r: "reify k h x = Some j'" and y: "y = (key, j')" by auto
        from Suc.IH[OF r Suc.prems(2)] e y
        show "(case e of (key, x) \<Rightarrow> map_option (Pair key) (reify k h' x)) = Some y" by simp
      qed
      with HRef c' Object j pj' show ?thesis by (simp add: reify_ref)
    next
      case (Arr xs)
      with Suc.prems(1) HRef c obtain js where
        js: "those (map (reify k h) xs) = Some js" and j: "j = JArr js"
        by (auto simp: reify_ref)
      have "those (map (reify k h') xs) = Some js"
        by (rule those_map_cong[OF js]) (rule Suc.IH[OF _ Suc.prems(2)])
      with HRef c' Arr j show ?thesis by (simp add: reify_ref)
    qed
  qed (use Suc.prems(1) in \<open>simp_all add: reify_primitive\<close>)
qed

subsection \<open>The run returns\<close>

lemma those_map_Some:
  "those (map f xs) = Some ys \<Longrightarrow> x \<in> set xs \<Longrightarrow> \<exists>y. f x = Some y"
  by (induction xs arbitrary: ys) (auto split: option.splits)

lemma read_own:
  "cell_at h v = Some (Object props proto) \<Longrightarrow> map_of props key = Some x \<Longrightarrow>
   read_prop h v key = x"
proof -
  assume c: "cell_at h v = Some (Object props proto)" and m: "map_of props key = Some x"
  from c obtain a where "v = HRef a" by (cases v) (auto simp: cell_at_def)
  with c m show ?thesis by (simp add: read_prop_def lookup_in_def)
qed

lemma forEach_total:
  assumes IHk: "\<And>h target source sj. reify k h source = Some sj \<Longrightarrow>
                  \<exists>r h'. deepMerge_store k h target source = Some (r, h')"
    and src: "cell_at h0 source = Some (Object props proto)"
    and kids: "\<And>key x. map_of props key = Some x \<Longrightarrow> \<exists>j. reify k h0 x = Some j"
    and out: "length h0 \<le> out"
    and ext: "take (length h0) h = h0"
    and own: "set keys \<subseteq> set (map fst props)"
  shows "\<exists>r h'. forEach_key_store k keys target source out h = Some (r, h')"
  using ext own
proof (induction keys arbitrary: h)
  case Nil
  then show ?case by simp
next
  case (Cons key keys)
  note ext = Cons.prems(1)
  from Cons.prems(2) have rest: "set keys \<subseteq> set (map fst props)" by simp
  let ?sv = "read_prop h source key"
  let ?tv = "read_prop h target key"
  from Cons.prems(2) obtain x where x: "map_of props key = Some x"
    by (cases "map_of props key") (auto simp: map_of_eq_None_iff)
  from ext src have "cell_at h source = Some (Object props proto)" by (rule cell_at_extends)
  then have sv: "?sv = x" using x by (rule read_own)
  show ?case
  proof (cases "isObject_at h ?sv")
    case obj: True
    show ?thesis
    proof (cases "has_property_at h target key")
      case False
      have "take (length h0) (write_prop h out key ?sv) = h0"
        using ext out by (rule extends_write)
      from Cons.IH[OF this rest] obj False show ?thesis by simp
    next
      case True
      from kids[OF x] sv obtain j where "reify k h0 ?sv = Some j" by auto
      then have "reify k h ?sv = Some j" using ext by (rule reify_extends)
      from IHk[OF this, of ?tv] obtain res h'' where
        call: "deepMerge_store k h ?tv ?sv = Some (res, h'')" by blast
      have "take (length h) h'' = h" using call by (rule store_frame(1))
      with ext have ext'': "take (length h0) h'' = h0" by (rule extends_trans)
      show ?thesis
      proof (cases res)
        case (Inl e)
        with obj True call show ?thesis by simp
      next
        case (Inr merged)
        have "take (length h0) (write_prop h'' out key merged) = h0"
          using ext'' out by (rule extends_write)
        from Cons.IH[OF this rest] obj True call Inr show ?thesis by simp
      qed
    qed
  next
    case nobj: False
    show ?thesis
    proof (cases "isArray_at h ?sv")
      case arr: True
      let ?cell = "Arr (if isArray_at h ?tv then elements_at h ?tv @ elements_at h ?sv
                        else elements_at h ?sv)"
      have "take (length h0) (h @ [?cell]) = h0" using ext by (rule extends_append)
      then have "take (length h0) (write_prop (h @ [?cell]) out key (HRef (length h))) = h0"
        using out by (rule extends_write)
      from Cons.IH[OF this rest] nobj arr show ?thesis by simp
    next
      case narr: False
      show ?thesis
      proof (cases "has_property_at h (HRef out) key")
        case True
        with nobj narr show ?thesis by simp
      next
        case False
        have "take (length h0) (write_prop h out key ?sv) = h0"
          using ext out by (rule extends_write)
        from Cons.IH[OF this rest] nobj narr False show ?thesis by simp
      qed
    qed
  qed
qed

lemma store_total:
  "reify k h source = Some sj \<Longrightarrow> \<exists>r h'. deepMerge_store k h target source = Some (r, h')"
proof (induction k arbitrary: h target source sj)
  case 0
  then show ?case by simp
next
  case (Suc k)
  let ?h1 = "h @ [Obj (spread_at h target)]"
  have ext1: "take (length h) ?h1 = h" by simp
  show ?case
  proof (cases "isObject_at ?h1 target \<and> isObject_at ?h1 source")
    case False
    then show ?thesis by (auto simp: Let_def)
  next
    case True
    show ?thesis
    proof (cases "cell_at h source")
      case None
      have "properties_at ?h1 source = []"
      proof (cases source)
        case (HRef a)
        with None Suc.prems show ?thesis by (simp add: reify_ref)
      qed (simp_all add: properties_at_def cell_at_def)
      with True show ?thesis by (simp add: Let_def)
    next
      case (Some c)
      with ext1 have c1: "cell_at ?h1 source = Some c" by (rule cell_at_extends)
      show ?thesis
      proof (cases c)
        case (Arr xs)
        with c1 have "properties_at ?h1 source = []" by (simp add: properties_at_def)
        with True show ?thesis by (simp add: Let_def)
      next
        case (Object props proto)
        from Some obtain a where a: "source = HRef a" by (cases source) (auto simp: cell_at_def)
        from Suc.prems a Some Object obtain js where
          js: "those (map (\<lambda>(key, x). map_option (Pair key) (reify k h x)) props) = Some js"
          by (auto simp: reify_ref split: option.splits)
        have kids: "\<exists>j. reify k h x = Some j" if "map_of props key = Some x" for key x
        proof -
          from that have "(key, x) \<in> set props" by (rule map_of_SomeD)
          from those_map_Some[OF js this] show ?thesis by auto
        qed
        have p1: "properties_at ?h1 source = props" using c1 Object by (simp add: properties_at_def)
        have "\<exists>r h'. forEach_key_store k (map fst props) target source (length h) ?h1 = Some (r, h')"
          by (rule forEach_total[OF Suc.IH Some[unfolded Object] kids _ ext1]) simp_all
        then obtain r h' where
          "forEach_key_store k (map fst props) target source (length h) ?h1 = Some (r, h')"
          by blast
        with True p1 show ?thesis by (cases r) (auto simp: Let_def)
      qed
    qed
  qed
qed

text \<open>
  C9: \<open>deepMerge\<close> mutates neither input. A run on a store leaves every cell that
  existed before the call as it was, so \<open>target\<close> and \<open>source\<close> read back the same
  plain values afterwards, at every depth; all writes go to cells allocated by the
  call. The run returns whenever \<open>source\<close> reads back as a plain value (it is closed
  and has no cycle), with the fuel that reads it.
\<close>
theorem deepMerge_store_pure:
  "(deepMerge_store n h target source = Some (r, h') \<longrightarrow>
      take (length h) h' = h \<and>
      (\<forall>k j. reify k h target = Some j \<longrightarrow> reify k h' target = Some j) \<and>
      (\<forall>k j. reify k h source = Some j \<longrightarrow> reify k h' source = Some j)) \<and>
   (reify k h source = Some sj \<longrightarrow>
      (\<exists>r h'. deepMerge_store k h target source = Some (r, h')))"
proof (intro conjI impI allI)
  assume run: "deepMerge_store n h target source = Some (r, h')"
  then show ext: "take (length h) h' = h" by (rule store_frame(1))
  fix k j
  show "reify k h' target = Some j" if "reify k h target = Some j"
    using that ext by (rule reify_extends)
  show "reify k h' source = Some j" if "reify k h source = Some j"
    using that ext by (rule reify_extends)
next
  assume "reify k h source = Some sj"
  then show "\<exists>r h'. deepMerge_store k h target source = Some (r, h')"
    by (rule store_total)
qed

theorem deepMerge_store_pure_witness:
  "deepMerge_store 3
     [Obj [(''a'', HRef 1), (''b'', HStr ''x''), (''d'', HRef 2)], Arr [HNull],
      Obj [(''e'', HNum (Finite 1))],
      Obj [(''a'', HRef 4), (''c'', HRef 5), (''d'', HRef 6)], Arr [HBool True], Obj [],
      Obj [(''f'', HNum (Finite 2))]]
     (HRef 0) (HRef 3)
   = Some (Inr (HRef 7),
     [Obj [(''a'', HRef 1), (''b'', HStr ''x''), (''d'', HRef 2)], Arr [HNull],
      Obj [(''e'', HNum (Finite 1))],
      Obj [(''a'', HRef 4), (''c'', HRef 5), (''d'', HRef 6)], Arr [HBool True], Obj [],
      Obj [(''f'', HNum (Finite 2))],
      Obj [(''a'', HRef 8), (''b'', HStr ''x''), (''d'', HRef 9), (''c'', HRef 5)],
      Arr [HNull, HBool True],
      Obj [(''e'', HNum (Finite 1)), (''f'', HNum (Finite 2))]]) \<and>
   take 7
     [Obj [(''a'', HRef 1), (''b'', HStr ''x''), (''d'', HRef 2)], Arr [HNull],
      Obj [(''e'', HNum (Finite 1))],
      Obj [(''a'', HRef 4), (''c'', HRef 5), (''d'', HRef 6)], Arr [HBool True], Obj [],
      Obj [(''f'', HNum (Finite 2))],
      Obj [(''a'', HRef 8), (''b'', HStr ''x''), (''d'', HRef 9), (''c'', HRef 5)],
      Arr [HNull, HBool True],
      Obj [(''e'', HNum (Finite 1)), (''f'', HNum (Finite 2))]]
   = [Obj [(''a'', HRef 1), (''b'', HStr ''x''), (''d'', HRef 2)], Arr [HNull],
      Obj [(''e'', HNum (Finite 1))],
      Obj [(''a'', HRef 4), (''c'', HRef 5), (''d'', HRef 6)], Arr [HBool True], Obj [],
      Obj [(''f'', HNum (Finite 2))]] \<and>
   reify 3
     [Obj [(''a'', HRef 1), (''b'', HStr ''x''), (''d'', HRef 2)], Arr [HNull],
      Obj [(''e'', HNum (Finite 1))],
      Obj [(''a'', HRef 4), (''c'', HRef 5), (''d'', HRef 6)], Arr [HBool True], Obj [],
      Obj [(''f'', HNum (Finite 2))],
      Obj [(''a'', HRef 8), (''b'', HStr ''x''), (''d'', HRef 9), (''c'', HRef 5)],
      Arr [HNull, HBool True],
      Obj [(''e'', HNum (Finite 1)), (''f'', HNum (Finite 2))]]
     (HRef 0)
   = Some (JObj [(''a'', JArr [JNull]), (''b'', JStr ''x''), (''d'', JObj [(''e'', JNum (Finite 1))])]) \<and>
   reify 3
     [Obj [(''a'', HRef 1), (''b'', HStr ''x''), (''d'', HRef 2)], Arr [HNull],
      Obj [(''e'', HNum (Finite 1))],
      Obj [(''a'', HRef 4), (''c'', HRef 5), (''d'', HRef 6)], Arr [HBool True], Obj [],
      Obj [(''f'', HNum (Finite 2))],
      Obj [(''a'', HRef 8), (''b'', HStr ''x''), (''d'', HRef 9), (''c'', HRef 5)],
      Arr [HNull, HBool True],
      Obj [(''e'', HNum (Finite 1)), (''f'', HNum (Finite 2))]]
     (HRef 3)
   = Some (JObj [(''a'', JArr [JBool True]), (''c'', JObj []), (''d'', JObj [(''f'', JNum (Finite 2))])]) \<and>
   reify 3
     [Obj [(''a'', HRef 1), (''b'', HStr ''x''), (''d'', HRef 2)], Arr [HNull],
      Obj [(''e'', HNum (Finite 1))],
      Obj [(''a'', HRef 4), (''c'', HRef 5), (''d'', HRef 6)], Arr [HBool True], Obj [],
      Obj [(''f'', HNum (Finite 2))],
      Obj [(''a'', HRef 8), (''b'', HStr ''x''), (''d'', HRef 9), (''c'', HRef 5)],
      Arr [HNull, HBool True],
      Obj [(''e'', HNum (Finite 1)), (''f'', HNum (Finite 2))]]
     (HRef 7)
   = Some (JObj [(''a'', JArr [JNull, JBool True]), (''b'', JStr ''x''),
           (''d'', JObj [(''e'', JNum (Finite 1)), (''f'', JNum (Finite 2))]), (''c'', JObj [])]) \<and>
   deepMerge (JObj [(''a'', JArr [JNull]), (''b'', JStr ''x''), (''d'', JObj [(''e'', JNum (Finite 1))])])
     (JObj [(''a'', JArr [JBool True]), (''c'', JObj []), (''d'', JObj [(''f'', JNum (Finite 2))])])
   = Inr (JObj [(''a'', JArr [JNull, JBool True]), (''b'', JStr ''x''),
           (''d'', JObj [(''e'', JNum (Finite 1)), (''f'', JNum (Finite 2))]), (''c'', JObj [])])"
proof -
  let ?h = "[Obj [(''a'', HRef 1), (''b'', HStr ''x''), (''d'', HRef 2)], Arr [HNull],
      Obj [(''e'', HNum (Finite 1))],
      Obj [(''a'', HRef 4), (''c'', HRef 5), (''d'', HRef 6)], Arr [HBool True], Obj [],
      Obj [(''f'', HNum (Finite 2))]]"
  let ?h' = "[Obj [(''a'', HRef 1), (''b'', HStr ''x''), (''d'', HRef 2)], Arr [HNull],
      Obj [(''e'', HNum (Finite 1))],
      Obj [(''a'', HRef 4), (''c'', HRef 5), (''d'', HRef 6)], Arr [HBool True], Obj [],
      Obj [(''f'', HNum (Finite 2))],
      Obj [(''a'', HRef 8), (''b'', HStr ''x''), (''d'', HRef 9), (''c'', HRef 5)],
      Arr [HNull, HBool True],
      Obj [(''e'', HNum (Finite 1)), (''f'', HNum (Finite 2))]]"
  let ?t = "JObj [(''a'', JArr [JNull]), (''b'', JStr ''x''), (''d'', JObj [(''e'', JNum (Finite 1))])]"
  let ?s = "JObj [(''a'', JArr [JBool True]), (''c'', JObj []), (''d'', JObj [(''f'', JNum (Finite 2))])]"
  let ?r = "JObj [(''a'', JArr [JNull, JBool True]), (''b'', JStr ''x''),
           (''d'', JObj [(''e'', JNum (Finite 1)), (''f'', JNum (Finite 2))]), (''c'', JObj [])]"
  have run: "deepMerge_store 3 ?h (HRef 0) (HRef 3) = Some (Inr (HRef 7), ?h')" by code_simp
  have t: "reify 3 ?h (HRef 0) = Some ?t" by code_simp
  have s: "reify 3 ?h (HRef 3) = Some ?s" by code_simp
  have out: "reify 3 ?h' (HRef 7) = Some ?r" by code_simp
  have pure: "deepMerge ?t ?s = Inr ?r" by code_simp
  note inst = deepMerge_store_pure[where n = 3 and h = ?h and target = "HRef 0"
      and source = "HRef 3" and r = "Inr (HRef 7)" and h' = ?h']
  from inst run have ext: "take (length ?h) ?h' = ?h" by blast
  from inst run t have t': "reify 3 ?h' (HRef 0) = Some ?t" by blast
  from inst run s have s': "reify 3 ?h' (HRef 3) = Some ?s" by blast
  from ext have ext7: "take 7 ?h' = ?h" by simp
  show ?thesis
    by (intro conjI) (rule run, rule ext7, rule t', rule s', rule out, rule pure)
qed

text \<open>
  Three runs where the names that objects inherit, the order of array indices and the
  setter of \<open>__proto__\<close> matter; the results read back as those of \<open>deepMerge\<close> on the
  plain values.
\<close>

lemma deepMerge_store_examples:
  "deepMerge_store 2 [Obj [], Obj [(''toString'', HStr ''x'')]] (HRef 0) (HRef 1)
     = Some (Inl (Error (conflict_message ''toString'')),
             [Obj [], Obj [(''toString'', HStr ''x'')], Obj []])"
  "deepMerge (JObj []) (JObj [(''toString'', JStr ''x'')])
     = Inl (Error (conflict_message ''toString''))"
  "deepMerge_store 2 [Obj [(''b'', HNum (Finite 1))], Obj [(''1'', HNum (Finite 2))]] (HRef 0) (HRef 1)
     = Some (Inr (HRef 2),
             [Obj [(''b'', HNum (Finite 1))], Obj [(''1'', HNum (Finite 2))],
              Obj [(''1'', HNum (Finite 2)), (''b'', HNum (Finite 1))]])"
  "deepMerge (JObj [(''b'', JNum (Finite 1))]) (JObj [(''1'', JNum (Finite 2))])
     = Inr (JObj [(''1'', JNum (Finite 2)), (''b'', JNum (Finite 1))])"
  "deepMerge_store 3 [Obj [], Obj [(''__proto__'', HRef 2)], Obj [(''a'', HNum (Finite 1))]]
       (HRef 0) (HRef 1)
     = Some (Inr (HRef 3),
             [Obj [], Obj [(''__proto__'', HRef 2)], Obj [(''a'', HNum (Finite 1))],
              Object [] (HRef 4), Obj [(''a'', HNum (Finite 1))]])"
  "reify 3 [Obj [], Obj [(''__proto__'', HRef 2)], Obj [(''a'', HNum (Finite 1))],
            Object [] (HRef 4), Obj [(''a'', HNum (Finite 1))]] (HRef 3)
     = Some (JObject [] (JObj [(''a'', JNum (Finite 1))]))"
  "deepMerge (JObj []) (JObj [(''__proto__'', JObj [(''a'', JNum (Finite 1))])])
     = Inr (JObject [] (JObj [(''a'', JNum (Finite 1))]))"
  by code_simp+

end
